theory Spec2Isabelle
  imports Main "HOL-Library.Word" "HOL-Library.AList" "HOL-Library.Product_Lexorder"
begin

unbundle bit_operations_syntax

section \<open>Channel leader election (package cluster)\<close>

subsection \<open>Data\<close>

type_synonym uint8 = "8 word"
type_synonym uint32 = "32 word"
type_synonym uint64 = "64 word"

text \<open>
  \<^verbatim>\<open>ChannelLastLogInfoResponse\<close> is declared outside the two source files. Its
  fields and their widths are read off their uses in \<^verbatim>\<open>election\<close> and
  \<^verbatim>\<open>channelLeaderIDByLogInfo\<close>: \<^verbatim>\<open>Term\<close> is compared with a \<^verbatim>\<open>uint32\<close>
  variable and \<^verbatim>\<open>LogIndex\<close> with a \<^verbatim>\<open>uint64\<close> one.
\<close>

record ChannelLastLogInfoResponse =
  ChannelId :: string
  ChannelType :: uint8
  LogIndex :: uint64
  Term :: uint32

text \<open>
  \<^verbatim>\<open>replicaChannelLastLogInfoResponse\<close> embeds the response and adds the id of
  the replica that sent it.
\<close>

record replicaChannelLastLogInfoResponse = ChannelLastLogInfoResponse +
  replicaId :: uint64

subsection \<open>channelLeaderIDByLogInfo\<close>

text \<open>
  The loop state is the triple \<^verbatim>\<open>(leaderID, maxIndex, maxTerm)\<close>, all three
  starting at zero. One iteration of the \<^verbatim>\<open>for _, resp := range resps\<close> body:
\<close>

fun leaderStep ::
  "uint64 \<times> uint64 \<times> uint32 \<Rightarrow> replicaChannelLastLogInfoResponse \<Rightarrow> uint64 \<times> uint64 \<times> uint32"
where
  "leaderStep (leaderID, maxIndex, maxTerm) resp =
     (if Term resp > maxTerm then (replicaId resp, LogIndex resp, Term resp)
      else if Term resp = maxTerm then
        (if LogIndex resp > maxIndex then (replicaId resp, LogIndex resp, maxTerm)
         else (leaderID, maxIndex, maxTerm))
      else (leaderID, maxIndex, maxTerm))"

definition channelLeaderIDByLogInfo :: "replicaChannelLastLogInfoResponse list \<Rightarrow> uint64" where
  "channelLeaderIDByLogInfo resps = fst (foldl leaderStep (0, 0, 0) resps)"

text \<open>Lexicographic comparison of two witnesses on \<open>(term, lastIndex)\<close>.\<close>

definition logLe :: "replicaChannelLastLogInfoResponse \<Rightarrow> replicaChannelLastLogInfoResponse \<Rightarrow> bool" where
  "logLe a b = (Term a < Term b \<or> (Term a = Term b \<and> LogIndex a \<le> LogIndex b))"

definition logLess :: "replicaChannelLastLogInfoResponse \<Rightarrow> replicaChannelLastLogInfoResponse \<Rightarrow> bool" where
  "logLess a b = (Term a < Term b \<or> (Term a = Term b \<and> LogIndex a < LogIndex b))"

text \<open>
  The invariant of the loop after the prefix \<open>xs\<close>: the pair \<open>(maxTerm, maxIndex)\<close>
  bounds every witness seen; and either no witness has raised it above \<open>(0, 0)\<close> and the
  leader id is still zero, or the leader id is that of the first witness that attains it.
\<close>

definition leaderInv ::
  "replicaChannelLastLogInfoResponse list \<Rightarrow> uint64 \<times> uint64 \<times> uint32 \<Rightarrow> bool"
where
  "leaderInv xs st =
     (case st of (leaderID, maxIndex, maxTerm) \<Rightarrow>
        (\<forall>r \<in> set xs. Term r < maxTerm \<or> (Term r = maxTerm \<and> LogIndex r \<le> maxIndex)) \<and>
        ((leaderID = 0 \<and> maxIndex = 0 \<and> maxTerm = 0) \<or>
         (\<exists>i < length xs.
            replicaId (xs ! i) = leaderID \<and> Term (xs ! i) = maxTerm \<and> LogIndex (xs ! i) = maxIndex \<and>
            (\<forall>j < i. logLess (xs ! j) (xs ! i)))))"

lemma leaderInv_init: "leaderInv [] (0, 0, 0)"
  by (simp add: leaderInv_def)

lemma leaderStep_up:
  "Term x > mt \<or> (Term x = mt \<and> LogIndex x > mi) \<Longrightarrow>
   leaderStep (l, mi, mt) x = (replicaId x, LogIndex x, Term x)"
  by auto

lemma leaderStep_keep:
  "\<not> (Term x > mt \<or> (Term x = mt \<and> LogIndex x > mi)) \<Longrightarrow>
   leaderStep (l, mi, mt) x = (l, mi, mt)"
  by auto

lemma below_up:
  fixes t mt :: uint32 and i mi :: uint64
  assumes "t < mt \<or> (t = mt \<and> i \<le> mi)" and "mt < t' \<or> (mt = t' \<and> mi < i')"
  shows "t < t' \<or> (t = t' \<and> i < i')"
  using assms by (elim disjE conjE) auto

lemma below_keep:
  fixes t mt :: uint32 and i mi :: uint64
  assumes "\<not> (mt < t \<or> (t = mt \<and> mi < i))"
  shows "t < mt \<or> (t = mt \<and> i \<le> mi)"
  using assms by auto

lemma leaderInvI:
  assumes "\<forall>r \<in> set xs. Term r < mt \<or> (Term r = mt \<and> LogIndex r \<le> mi)"
    and "(l = 0 \<and> mi = 0 \<and> mt = 0) \<or>
         (\<exists>i < length xs.
            replicaId (xs ! i) = l \<and> Term (xs ! i) = mt \<and> LogIndex (xs ! i) = mi \<and>
            (\<forall>j < i. logLess (xs ! j) (xs ! i)))"
  shows "leaderInv xs (l, mi, mt)"
  using assms unfolding leaderInv_def prod.case by (rule conjI)

lemma leaderInv_step:
  assumes "leaderInv xs st"
  shows "leaderInv (xs @ [x]) (leaderStep st x)"
proof -
  obtain l mi mt where st: "st = (l, mi, mt)" by (cases st)
  from assms st have bound:
    "\<forall>r \<in> set xs. Term r < mt \<or> (Term r = mt \<and> LogIndex r \<le> mi)"
    by (simp add: leaderInv_def)
  from assms st have orig:
    "(l = 0 \<and> mi = 0 \<and> mt = 0) \<or>
     (\<exists>i < length xs. replicaId (xs ! i) = l \<and> Term (xs ! i) = mt \<and> LogIndex (xs ! i) = mi \<and>
        (\<forall>j < i. logLess (xs ! j) (xs ! i)))"
    by (simp add: leaderInv_def)
  show ?thesis
  proof (cases "Term x > mt \<or> (Term x = mt \<and> LogIndex x > mi)")
    case True
    then have up: "mt < Term x \<or> (mt = Term x \<and> mi < LogIndex x)" by auto
    have step: "leaderStep st x = (replicaId x, LogIndex x, Term x)"
      unfolding st by (rule leaderStep_up [OF True])
    have old: "Term r < Term x \<or> (Term r = Term x \<and> LogIndex r < LogIndex x)"
      if "r \<in> set xs" for r
    proof -
      from bound that have "Term r < mt \<or> (Term r = mt \<and> LogIndex r \<le> mi)" by blast
      then show ?thesis by (rule below_up [OF _ up])
    qed
    have b': "\<forall>r \<in> set (xs @ [x]).
        Term r < Term x \<or> (Term r = Term x \<and> LogIndex r \<le> LogIndex x)"
    proof
      fix r assume "r \<in> set (xs @ [x])"
      then consider "r \<in> set xs" | "r = x" by auto
      then show "Term r < Term x \<or> (Term r = Term x \<and> LogIndex r \<le> LogIndex x)"
      proof cases
        case 1
        from old [OF 1] show ?thesis by auto
      next
        case 2
        then show ?thesis by simp
      qed
    qed
    have first: "\<forall>j < length xs. logLess ((xs @ [x]) ! j) x"
    proof (intro allI impI)
      fix j assume j: "j < length xs"
      then have "xs ! j \<in> set xs" by simp
      from old [OF this] have "logLess (xs ! j) x" by (simp add: logLess_def)
      with j show "logLess ((xs @ [x]) ! j) x" by (simp add: nth_append)
    qed
    have ex: "\<exists>i < length (xs @ [x]).
        replicaId ((xs @ [x]) ! i) = replicaId x \<and> Term ((xs @ [x]) ! i) = Term x \<and>
        LogIndex ((xs @ [x]) ! i) = LogIndex x \<and>
        (\<forall>j < i. logLess ((xs @ [x]) ! j) ((xs @ [x]) ! i))"
      using first by (intro exI [of _ "length xs"]) simp
    show ?thesis
      unfolding step by (rule leaderInvI [OF b' disjI2 [OF ex]])
  next
    case False
    have step: "leaderStep st x = (l, mi, mt)"
      unfolding st by (rule leaderStep_keep [OF False])
    have xb: "Term x < mt \<or> (Term x = mt \<and> LogIndex x \<le> mi)"
      by (rule below_keep [OF False])
    have b': "\<forall>r \<in> set (xs @ [x]). Term r < mt \<or> (Term r = mt \<and> LogIndex r \<le> mi)"
      using bound xb by simp
    have d: "(l = 0 \<and> mi = 0 \<and> mt = 0) \<or>
       (\<exists>i < length (xs @ [x]). replicaId ((xs @ [x]) ! i) = l \<and> Term ((xs @ [x]) ! i) = mt \<and>
          LogIndex ((xs @ [x]) ! i) = mi \<and>
          (\<forall>j < i. logLess ((xs @ [x]) ! j) ((xs @ [x]) ! i)))"
      using orig
    proof
      assume "l = 0 \<and> mi = 0 \<and> mt = 0"
      then show ?thesis by simp
    next
      assume "\<exists>i < length xs. replicaId (xs ! i) = l \<and> Term (xs ! i) = mt \<and> LogIndex (xs ! i) = mi \<and>
        (\<forall>j < i. logLess (xs ! j) (xs ! i))"
      then obtain i where i: "i < length xs" "replicaId (xs ! i) = l" "Term (xs ! i) = mt"
        "LogIndex (xs ! i) = mi" "\<forall>j < i. logLess (xs ! j) (xs ! i)"
        by blast
      have "\<forall>j < i. logLess ((xs @ [x]) ! j) ((xs @ [x]) ! i)"
        using i(1,5) by (simp add: nth_append)
      with i show ?thesis
        by (intro disjI2 exI [of _ i]) (simp add: nth_append)
    qed
    show ?thesis
      unfolding step by (rule leaderInvI [OF b' d])
  qed
qed

lemma leaderInv_foldl: "leaderInv xs (foldl leaderStep (0, 0, 0) xs)"
proof (induction xs rule: rev_induct)
  case Nil
  show ?case unfolding foldl_Nil by (rule leaderInv_init)
next
  case (snoc x xs)
  show ?case unfolding foldl_append foldl_Cons foldl_Nil by (rule leaderInv_step [OF snoc])
qed

lemma leaderInvD:
  assumes "leaderInv xs (l, mi, mt)"
  shows "\<forall>r \<in> set xs. Term r < mt \<or> (Term r = mt \<and> LogIndex r \<le> mi)"
    and "(l = 0 \<and> mi = 0 \<and> mt = 0) \<or>
         (\<exists>i < length xs.
            replicaId (xs ! i) = l \<and> Term (xs ! i) = mt \<and> LogIndex (xs ! i) = mi \<and>
            (\<forall>j < i. logLess (xs ! j) (xs ! i)))"
  using assms unfolding leaderInv_def prod.case by blast+

text \<open>
  C1. For a non-empty list of witnesses, a non-zero result of
  \<^verbatim>\<open>channelLeaderIDByLogInfo\<close> is the replica id of a witness whose
  \<open>(term, lastIndex)\<close> is lexicographically greatest in the list, and that witness is
  the first one in the list to attain the greatest pair: every witness before it is
  strictly smaller.
\<close>

theorem channelLeaderIDByLogInfo_max_first:
  assumes "resps \<noteq> []" and "channelLeaderIDByLogInfo resps \<noteq> 0"
  shows "\<exists>i < length resps.
           replicaId (resps ! i) = channelLeaderIDByLogInfo resps \<and>
           (\<forall>r \<in> set resps. logLe r (resps ! i)) \<and>
           (\<forall>j < i. logLess (resps ! j) (resps ! i))"
proof -
  obtain l mi mt where st: "foldl leaderStep (0, 0, 0) resps = (l, mi, mt)"
    by (cases "foldl leaderStep (0, 0, 0) resps")
  then have l: "channelLeaderIDByLogInfo resps = l"
    by (simp add: channelLeaderIDByLogInfo_def)
  have inv: "leaderInv resps (l, mi, mt)"
    using leaderInv_foldl [of resps] unfolding st .
  note bound = leaderInvD(1) [OF inv]
  from assms(2) l have "l \<noteq> 0" by simp
  with leaderInvD(2) [OF inv] obtain i where i: "i < length resps" "replicaId (resps ! i) = l"
    "Term (resps ! i) = mt" "LogIndex (resps ! i) = mi" "\<forall>j < i. logLess (resps ! j) (resps ! i)"
    by blast
  have le: "\<forall>r \<in> set resps. logLe r (resps ! i)"
  proof
    fix r assume "r \<in> set resps"
    with bound have "Term r < mt \<or> (Term r = mt \<and> LogIndex r \<le> mi)" by blast
    then show "logLe r (resps ! i)" unfolding logLe_def i(3,4) .
  qed
  show ?thesis
    unfolding l using i(1) i(2) le i(5) by (intro exI [of _ i] conjI)
qed

text \<open>Scenario S1 of the specification: replicas 10, 20 and 30 of channel \<open>(c1, 2)\<close>.\<close>

definition scenarioS1 :: "replicaChannelLastLogInfoResponse list" where
  "scenarioS1 =
     [\<lparr>ChannelId = ''c1'', ChannelType = 2, LogIndex = 100, Term = 7, replicaId = 10\<rparr>,
      \<lparr>ChannelId = ''c1'', ChannelType = 2, LogIndex = 100, Term = 7, replicaId = 20\<rparr>,
      \<lparr>ChannelId = ''c1'', ChannelType = 2, LogIndex = 99, Term = 7, replicaId = 30\<rparr>]"

lemma scenarioS1_leader: "channelLeaderIDByLogInfo scenarioS1 = 10"
  by (simp add: scenarioS1_def channelLeaderIDByLogInfo_def)

theorem channelLeaderIDByLogInfo_max_first_witness:
  "scenarioS1 \<noteq> [] \<and> channelLeaderIDByLogInfo scenarioS1 \<noteq> 0 \<and>
   (\<exists>i < length scenarioS1.
      replicaId (scenarioS1 ! i) = channelLeaderIDByLogInfo scenarioS1 \<and>
      (\<forall>r \<in> set scenarioS1. logLe r (scenarioS1 ! i)) \<and>
      (\<forall>j < i. logLess (scenarioS1 ! j) (scenarioS1 ! i)))"
proof -
  have h1: "scenarioS1 \<noteq> []" by (simp add: scenarioS1_def)
  have h2: "channelLeaderIDByLogInfo scenarioS1 \<noteq> 0" by (simp add: scenarioS1_leader)
  show ?thesis
    using h1 h2 channelLeaderIDByLogInfo_max_first [OF h1 h2] by (intro conjI)
qed

subsection \<open>Election requests and the collaborators of the coordinator\<close>

text \<open>
  \<^verbatim>\<open>wkdb.ChannelClusterConfig\<close> is declared outside the two source files. The fields
  are those the specification lists and \<^verbatim>\<open>election\<close> touches (\<^verbatim>\<open>Replicas\<close>,
  \<^verbatim>\<open>Term\<close>, \<^verbatim>\<open>LeaderId\<close>); the term is the 32-bit counter of the specification.
  Fields this model does not name live in the record's extension part, so statements
  over \<open>'a ChannelClusterConfig_scheme\<close> cover them. The fields are prefixed with
  \<open>cfg\<close> where the response record already uses the name.
\<close>

record ChannelClusterConfig =
  cfgChannelId :: string
  cfgChannelType :: uint8
  Replicas :: "uint64 list"
  cfgTerm :: uint32
  LeaderId :: uint64

record channel =
  channelId :: string
  channelType :: uint8
  key :: string

text \<open>The result channel of a request is identified by a number.\<close>

record 'a electionReq =
  ch :: channel
  cfg :: "'a ChannelClusterConfig_scheme"
  resultC :: nat

datatype error =
  ErrStopped
  | ErrChannelElectionCIsFull
  | ErrNotEnoughReplicas
  | ErrNoLeader
  | ErrNotFound
  | ErrorString string

text \<open>
  An \<^verbatim>\<open>electionResp\<close> carries either an error or a config; the source never sets
  both.
\<close>

type_synonym 'a electionResp = "error + 'a ChannelClusterConfig_scheme"

record ChannelLastLogInfoReq =
  reqChannelId :: string
  reqChannelType :: uint8

text \<open>
  The options the coordinator reads. \<^verbatim>\<open>Options\<close> is declared outside the source
  files; \<^verbatim>\<open>ChannelMaxReplicaCount\<close> is a replica count (the source converts it to
  \<^verbatim>\<open>int\<close> after halving it), the two lengths are Go \<^verbatim>\<open>int\<close>s.
\<close>

record Options =
  NodeId :: uint64
  ChannelMaxReplicaCount :: nat
  MaxChannelElectionBatchLen :: int
  ChannelElectionPoolSize :: int

text \<open>
  The collaborators reached through \<^verbatim>\<open>c.s\<close>: the liveness oracle
  \<^verbatim>\<open>clusterEventServer.NodeOnline\<close>, the local log store's
  \<^verbatim>\<open>LastIndexAndTerm\<close>, and \<^verbatim>\<open>nodeManager.node\<close>, which yields no handle or
  a handle whose \<^verbatim>\<open>requestChannelLastLogInfo\<close> answers a batch of requests or
  fails (a call cut off by the five-second deadline fails too).
\<close>

record Server =
  NodeOnline :: "uint64 \<Rightarrow> bool"
  LastIndexAndTerm :: "string \<Rightarrow> error + (uint64 \<times> uint32)"
  node :: "uint64 \<Rightarrow> (ChannelLastLogInfoReq list \<Rightarrow> error + ChannelLastLogInfoResponse list) option"

subsection \<open>quorum and the election round\<close>

definition quorum :: "Options \<Rightarrow> nat" where
  "quorum opts = ChannelMaxReplicaCount opts div 2 + 1"

text \<open>
  Go maps are association lists with distinct keys here: \<^verbatim>\<open>range\<close> visits the
  entries in the order of the list (Go leaves the order open; statements below that
  take the map as an argument hold for every order).
\<close>

type_synonym ('k, 'v) gomap = "('k \<times> 'v list) list"

text \<open>\<^verbatim>\<open>m[k] = append(m[k], v)\<close>\<close>

definition mapAppend :: "('k, 'v) gomap \<Rightarrow> 'k \<Rightarrow> 'v \<Rightarrow> ('k, 'v) gomap" where
  "mapAppend m k v = AList.update k ((case map_of m k of None \<Rightarrow> [] | Some vs \<Rightarrow> vs) @ [v]) m"

text \<open>
  The witnesses \<^verbatim>\<open>election\<close> gathers for one request: every response of every
  replica whose channel id and type are the request's.
\<close>

definition lastInfoRespsOf ::
  "channel \<Rightarrow> (uint64, ChannelLastLogInfoResponse) gomap \<Rightarrow> replicaChannelLastLogInfoResponse list"
where
  "lastInfoRespsOf c m =
     concat (map (\<lambda>(rid, resps).
       map (\<lambda>resp. \<lparr>ChannelId = ChannelId resp, ChannelType = ChannelType resp,
                     LogIndex = LogIndex resp, Term = Term resp, replicaId = rid\<rparr>)
         (filter (\<lambda>resp. channelId c = ChannelId resp \<and> channelType c = ChannelType resp) resps)) m)"

text \<open>The body of the \<^verbatim>\<open>for _, req := range reqs\<close> loop: the response for one request.\<close>

definition electionResult ::
  "nat \<Rightarrow> (uint64, ChannelLastLogInfoResponse) gomap \<Rightarrow> 'a electionReq \<Rightarrow> 'a electionResp"
where
  "electionResult q m req =
     (let lastInfoResps = lastInfoRespsOf (ch req) m in
      if length lastInfoResps < q then Inl ErrNotEnoughReplicas
      else
        let newLeaderId = channelLeaderIDByLogInfo lastInfoResps in
        if newLeaderId = 0 then Inl ErrNoLeader
        else Inr ((cfg req)\<lparr>cfgTerm := cfgTerm (cfg req) + 1, LeaderId := newLeaderId\<rparr>))"

text \<open>
  Every delivery is a \<^verbatim>\<open>select\<close> between the send on the request's result channel
  and the stop signal; \<open>stopWins i\<close> says that the stop case was taken at the
  \<open>i\<close>-th request, which ends the round. The function returns the deliveries made, in
  order, each with the result channel it went to.
\<close>

fun electionLoop ::
  "nat \<Rightarrow> (uint64, ChannelLastLogInfoResponse) gomap \<Rightarrow> (nat \<Rightarrow> bool) \<Rightarrow> nat \<Rightarrow>
   'a electionReq list \<Rightarrow> (nat \<times> 'a electionResp) list"
where
  "electionLoop q m stopWins i [] = []"
| "electionLoop q m stopWins i (req # reqs) =
     (if stopWins i then []
      else (resultC req, electionResult q m req) # electionLoop q m stopWins (Suc i) reqs)"

subsection \<open>requestChannelLastLogInfos\<close>

text \<open>The grouping of the requests by replica id.\<close>

definition replicaReqMap :: "'a electionReq list \<Rightarrow> (uint64, 'a electionReq) gomap" where
  "replicaReqMap reqs =
     foldl (\<lambda>m req. foldl (\<lambda>m rid. mapAppend m rid req) m (Replicas (cfg req))) [] reqs"

text \<open>The branch for the local replica: one read of the local store per request.\<close>

fun localLastLogInfos ::
  "Server \<Rightarrow> uint64 \<Rightarrow> 'a electionReq list \<Rightarrow> (uint64, ChannelLastLogInfoResponse) gomap \<Rightarrow>
   error + (uint64, ChannelLastLogInfoResponse) gomap"
where
  "localLastLogInfos s rid [] infos = Inr infos"
| "localLastLogInfos s rid (req # reqs) infos =
     (case LastIndexAndTerm s (key (ch req)) of
        Inl err \<Rightarrow> Inl err
      | Inr (lastIndex, lastTerm) \<Rightarrow>
          localLastLogInfos s rid reqs
            (mapAppend infos rid
               \<lparr>ChannelId = channelId (ch req), ChannelType = channelType (ch req),
                LogIndex = lastIndex, Term = lastTerm\<rparr>))"

definition logReqsOf :: "'a electionReq list \<Rightarrow> ChannelLastLogInfoReq list" where
  "logReqsOf reqs =
     map (\<lambda>req. \<lparr>reqChannelId = channelId (ch req), reqChannelType = channelType (ch req)\<rparr>) reqs"

text \<open>
  The loop over \<^verbatim>\<open>replicaReqMap\<close>. The remote calls run concurrently in the source
  and each stores its answer under its own replica id; the model makes each call where
  it is started. A missing node handle and a failed call add nothing and are no error.
\<close>

fun collectLastLogInfos ::
  "Server \<Rightarrow> Options \<Rightarrow> (uint64, 'a electionReq) gomap \<Rightarrow>
   (uint64, ChannelLastLogInfoResponse) gomap \<Rightarrow> error + (uint64, ChannelLastLogInfoResponse) gomap"
where
  "collectLastLogInfos s opts [] infos = Inr infos"
| "collectLastLogInfos s opts ((rid, reqs) # rest) infos =
     (if \<not> NodeOnline s rid then collectLastLogInfos s opts rest infos
      else if rid = NodeId opts then
        (case localLastLogInfos s rid reqs infos of
           Inl err \<Rightarrow> Inl err
         | Inr infos' \<Rightarrow> collectLastLogInfos s opts rest infos')
      else
        (case node s rid of
           None \<Rightarrow> collectLastLogInfos s opts rest infos
         | Some requestChannelLastLogInfo \<Rightarrow>
             (case requestChannelLastLogInfo (logReqsOf reqs) of
                Inl err \<Rightarrow> collectLastLogInfos s opts rest infos
              | Inr resps \<Rightarrow> collectLastLogInfos s opts rest (AList.update rid resps infos))))"

definition requestChannelLastLogInfos ::
  "Server \<Rightarrow> Options \<Rightarrow> 'a electionReq list \<Rightarrow> error + (uint64, ChannelLastLogInfoResponse) gomap"
where
  "requestChannelLastLogInfos s opts reqs = collectLastLogInfos s opts (replicaReqMap reqs) []"

subsection \<open>election\<close>

definition election ::
  "Server \<Rightarrow> Options \<Rightarrow> (nat \<Rightarrow> bool) \<Rightarrow> 'a electionReq list \<Rightarrow> (nat \<times> 'a electionResp) list"
where
  "election s opts stopWins reqs =
     (case requestChannelLastLogInfos s opts reqs of
        Inl err \<Rightarrow> map (\<lambda>req. (resultC req, Inl err)) reqs
      | Inr channelLastLogInfoMap \<Rightarrow> electionLoop (quorum opts) channelLastLogInfoMap stopWins 0 reqs)"

subsection \<open>The responses of a round\<close>

lemma electionLoop_length: "length (electionLoop q m stopWins k reqs) \<le> length reqs"
  by (induction reqs arbitrary: k) auto

lemma electionLoop_nth:
  "i < length (electionLoop q m stopWins k reqs) \<Longrightarrow>
   electionLoop q m stopWins k reqs ! i = (resultC (reqs ! i), electionResult q m (reqs ! i))"
proof (induction reqs arbitrary: k i)
  case Nil
  then show ?case by simp
next
  case (Cons req reqs)
  show ?case
  proof (cases "stopWins k")
    case True
    with Cons.prems show ?thesis by simp
  next
    case False
    show ?thesis
    proof (cases i)
      case 0
      with False show ?thesis by simp
    next
      case (Suc j)
      with False Cons.prems have "j < length (electionLoop q m stopWins (Suc k) reqs)" by simp
      from Cons.IH [OF this] Suc False show ?thesis by simp
    qed
  qed
qed

lemma electionResult_cases:
  "electionResult q m req =
     (if length (lastInfoRespsOf (ch req) m) < q then Inl ErrNotEnoughReplicas
      else if channelLeaderIDByLogInfo (lastInfoRespsOf (ch req) m) = 0 then Inl ErrNoLeader
      else Inr ((cfg req)\<lparr>cfgTerm := cfgTerm (cfg req) + 1,
                 LeaderId := channelLeaderIDByLogInfo (lastInfoRespsOf (ch req) m)\<rparr>))"
  by (simp add: electionResult_def Let_def)

lemma election_nth:
  assumes "requestChannelLastLogInfos s opts reqs = Inr m"
    and "i < length (election s opts stopWins reqs)"
  shows "election s opts stopWins reqs ! i = (resultC (reqs ! i), electionResult (quorum opts) m (reqs ! i))"
  using assms by (simp add: election_def electionLoop_nth)

lemma electionLoop_delivered:
  "i < length reqs \<Longrightarrow> \<forall>j \<le> i. \<not> stopWins (k + j) \<Longrightarrow>
   i < length (electionLoop q m stopWins k reqs)"
proof (induction reqs arbitrary: k i)
  case Nil
  then show ?case by simp
next
  case (Cons req reqs)
  from Cons.prems(2) have k: "\<not> stopWins k" by (metis add.right_neutral le0)
  show ?case
  proof (cases i)
    case 0
    with k show ?thesis by simp
  next
    case (Suc i')
    with Cons.prems(1) have l: "i' < length reqs" by simp
    have "\<forall>j \<le> i'. \<not> stopWins (Suc k + j)"
    proof (intro allI impI)
      fix j assume "j \<le> i'"
      then have "Suc j \<le> i" using Suc by simp
      with Cons.prems(2) have "\<not> stopWins (k + Suc j)" by blast
      then show "\<not> stopWins (Suc k + j)" by simp
    qed
    from Cons.IH [OF l this] k Suc show ?thesis by simp
  qed
qed

lemma electionLoop_stopped:
  "stopWins (k + j) \<Longrightarrow> length (electionLoop q m stopWins k reqs) \<le> j"
proof (induction reqs arbitrary: k j)
  case Nil
  then show ?case by simp
next
  case (Cons req reqs)
  show ?case
  proof (cases "stopWins k")
    case True
    then show ?thesis by simp
  next
    case False
    show ?thesis
    proof (cases j)
      case 0
      with Cons.prems False show ?thesis by simp
    next
      case (Suc j')
      with Cons.prems have "stopWins (Suc k + j')" by simp
      from Cons.IH [OF this] False Suc show ?thesis by simp
    qed
  qed
qed

lemma election_delivered:
  assumes "requestChannelLastLogInfos s opts reqs = Inr m"
    and "i < length reqs" and "\<forall>j \<le> i. \<not> stopWins j"
  shows "i < length (election s opts stopWins reqs)"
  using electionLoop_delivered [of i reqs stopWins 0 "quorum opts" m] assms
  by (simp add: election_def)

lemma election_stopped:
  assumes "requestChannelLastLogInfos s opts reqs = Inr m" and "stopWins j" and "j \<le> i"
  shows "\<not> i < length (election s opts stopWins reqs)"
  using electionLoop_stopped [of stopWins 0 j "quorum opts" m reqs] assms
  by (simp add: election_def)

text \<open>
  C2 (as amended). Take a round whose witness collection succeeded and a request of the
  batch such that the stop signal wins the delivery \<^verbatim>\<open>select\<close> neither of this
  request nor of an earlier one. Then the coordinator delivers a response on the
  request's result channel, and that response is a new config exactly when the number
  of witnesses for the request's \<open>(channelId, channelType)\<close> reaches
  \<open>ChannelMaxReplicaCount div 2 + 1\<close> and the chosen leader id is not zero; it is
  \<^verbatim>\<open>ErrNotEnoughReplicas\<close> exactly when the number of witnesses is below the quorum;
  and it is \<^verbatim>\<open>ErrNoLeader\<close> exactly when the quorum is met and the chosen leader id
  is zero. (When the stop signal wins at this or an earlier request, the round ends
  without a response for it: \<open>election_stopped\<close>. When witness collection fails,
  every request receives that error instead.)
\<close>

theorem election_success_iff:
  assumes "requestChannelLastLogInfos s opts reqs = Inr m"
    and "i < length reqs"
    and "\<forall>j \<le> i. \<not> stopWins j"
  shows "i < length (election s opts stopWins reqs) \<and>
         quorum opts = ChannelMaxReplicaCount opts div 2 + 1 \<and>
         fst (election s opts stopWins reqs ! i) = resultC (reqs ! i) \<and>
         ((\<exists>cfg'. snd (election s opts stopWins reqs ! i) = Inr cfg') =
            (quorum opts \<le> length (lastInfoRespsOf (ch (reqs ! i)) m) \<and>
             channelLeaderIDByLogInfo (lastInfoRespsOf (ch (reqs ! i)) m) \<noteq> 0)) \<and>
         ((snd (election s opts stopWins reqs ! i) = Inl ErrNotEnoughReplicas) =
            (length (lastInfoRespsOf (ch (reqs ! i)) m) < quorum opts)) \<and>
         ((snd (election s opts stopWins reqs ! i) = Inl ErrNoLeader) =
            (quorum opts \<le> length (lastInfoRespsOf (ch (reqs ! i)) m) \<and>
             channelLeaderIDByLogInfo (lastInfoRespsOf (ch (reqs ! i)) m) = 0))"
proof -
  note d = election_delivered [OF assms]
  show ?thesis
    unfolding election_nth [OF assms(1) d] electionResult_cases
    using d by (simp add: quorum_def)
qed

text \<open>
  C3 (as amended). The config of a successful response is the request's config with two
  fields changed: the term is the input term plus one modulo \<open>2 ^ 32\<close>
  (\<^verbatim>\<open>cfg.Term++\<close> on the 32-bit counter: the input term plus exactly one when the
  input term is below 4294967295, and 0 when it is 4294967295), and the leader id is
  the chosen, non-zero replica id. Channel id, channel type, replicas and every further
  field are those of the input.
\<close>

theorem election_frame:
  assumes "requestChannelLastLogInfos s opts reqs = Inr m"
    and "i < length (election s opts stopWins reqs)"
    and "snd (election s opts stopWins reqs ! i) = Inr cfg'"
  shows "cfg' = (cfg (reqs ! i))
            \<lparr>cfgTerm := cfgTerm (cfg (reqs ! i)) + 1,
             LeaderId := channelLeaderIDByLogInfo (lastInfoRespsOf (ch (reqs ! i)) m)\<rparr> \<and>
         cfgTerm cfg' = cfgTerm (cfg (reqs ! i)) + 1 \<and>
         unat (cfgTerm cfg') = (unat (cfgTerm (cfg (reqs ! i))) + 1) mod 2 ^ 32 \<and>
         (cfgTerm (cfg (reqs ! i)) \<noteq> 4294967295 \<longrightarrow>
            unat (cfgTerm cfg') = unat (cfgTerm (cfg (reqs ! i))) + 1) \<and>
         (cfgTerm (cfg (reqs ! i)) = 4294967295 \<longrightarrow> cfgTerm cfg' = 0) \<and>
         LeaderId cfg' = channelLeaderIDByLogInfo (lastInfoRespsOf (ch (reqs ! i)) m) \<and>
         LeaderId cfg' \<noteq> 0 \<and>
         cfgChannelId cfg' = cfgChannelId (cfg (reqs ! i)) \<and>
         cfgChannelType cfg' = cfgChannelType (cfg (reqs ! i)) \<and>
         Replicas cfg' = Replicas (cfg (reqs ! i)) \<and>
         ChannelClusterConfig.more cfg' = ChannelClusterConfig.more (cfg (reqs ! i))"
proof -
  from assms(3) have r: "electionResult (quorum opts) m (reqs ! i) = Inr cfg'"
    unfolding election_nth [OF assms(1,2)] by simp
  then have nz: "channelLeaderIDByLogInfo (lastInfoRespsOf (ch (reqs ! i)) m) \<noteq> 0"
    unfolding electionResult_cases by (simp split: if_splits)
  from r have eq: "cfg' = (cfg (reqs ! i))
            \<lparr>cfgTerm := cfgTerm (cfg (reqs ! i)) + 1,
             LeaderId := channelLeaderIDByLogInfo (lastInfoRespsOf (ch (reqs ! i)) m)\<rparr>"
    unfolding electionResult_cases by (simp split: if_splits)
  have u: "unat (cfgTerm (cfg (reqs ! i)) + 1) = (unat (cfgTerm (cfg (reqs ! i))) + 1) mod 2 ^ 32"
    by (simp add: unat_word_ariths)
  have below: "unat (x + 1) = unat x + 1" if "x \<noteq> 4294967295" for x :: uint32
  proof -
    have "x + 1 \<noteq> 0"
    proof
      assume "x + 1 = 0"
      then have "x = - 1" by (simp add: eq_neg_iff_add_eq_0)
      with that show False by simp
    qed
    then have "1 + x \<noteq> 0" by (simp add: add.commute)
    from unatSuc [OF this] show ?thesis by (simp add: add.commute)
  qed
  have top: "(4294967295 :: uint32) + 1 = 0" by simp
  show ?thesis
    using nz u below [of "cfgTerm (cfg (reqs ! i))"] top by (simp add: eq)
qed

subsection \<open>Scenarios\<close>

text \<open>
  Scenario S2 of the specification (replicas 1, 2, 3; node 1 is the local node), and a
  channel that is new on every replica.
\<close>

definition witnessReply :: "uint64 \<Rightarrow> uint32 \<Rightarrow> ChannelLastLogInfoReq list \<Rightarrow> error + ChannelLastLogInfoResponse list" where
  "witnessReply idx term logReqs =
     Inr (map (\<lambda>r. \<lparr>ChannelId = reqChannelId r, ChannelType = reqChannelType r,
                      LogIndex = idx, Term = term\<rparr>) logReqs)"

definition scenarioS2_server :: Server where
  "scenarioS2_server =
     \<lparr>NodeOnline = (\<lambda>_. True),
      LastIndexAndTerm = (\<lambda>_. Inr (5, 3)),
      node = (\<lambda>rid. if rid = 2 then Some (witnessReply 100 2)
                     else if rid = 3 then Some (witnessReply 50 3) else None)\<rparr>"

definition scenario_opts :: Options where
  "scenario_opts =
     \<lparr>NodeId = 1, ChannelMaxReplicaCount = 3, MaxChannelElectionBatchLen = 100,
      ChannelElectionPoolSize = 10\<rparr>"

definition scenario_req :: "unit electionReq" where
  "scenario_req =
     \<lparr>ch = \<lparr>channelId = ''c1'', channelType = 2, key = ''c1-2''\<rparr>,
      cfg = \<lparr>cfgChannelId = ''c1'', cfgChannelType = 2, Replicas = [1, 2, 3], cfgTerm = 7,
             LeaderId = 20\<rparr>,
      resultC = 0\<rparr>"

definition scenarioNew_server :: Server where
  "scenarioNew_server =
     \<lparr>NodeOnline = (\<lambda>_. True),
      LastIndexAndTerm = (\<lambda>_. Inr (0, 0)),
      node = (\<lambda>rid. Some (witnessReply 0 0))\<rparr>"


lemma replicaReqMap_scenario:
  "replicaReqMap [scenario_req] = [(1, [scenario_req]), (2, [scenario_req]), (3, [scenario_req])]"
  by (simp add: replicaReqMap_def mapAppend_def scenario_req_def)

definition scenarioS2_infos :: "(uint64, ChannelLastLogInfoResponse) gomap" where
  "scenarioS2_infos =
     [(1, [\<lparr>ChannelId = ''c1'', ChannelType = 2, LogIndex = 5, Term = 3\<rparr>]),
      (2, [\<lparr>ChannelId = ''c1'', ChannelType = 2, LogIndex = 100, Term = 2\<rparr>]),
      (3, [\<lparr>ChannelId = ''c1'', ChannelType = 2, LogIndex = 50, Term = 3\<rparr>])]"

lemma scenarioS2_collect:
  "requestChannelLastLogInfos scenarioS2_server scenario_opts [scenario_req] = Inr scenarioS2_infos"
  unfolding requestChannelLastLogInfos_def replicaReqMap_scenario
  by (simp add: scenarioS2_server_def scenario_opts_def scenarioS2_infos_def mapAppend_def
      logReqsOf_def witnessReply_def scenario_req_def)

subsection \<open>What witness collection returns\<close>

text \<open>
  \<open>firstReadError\<close> is the first failure among the local reads for a list of
  requests, \<open>localWitnesses\<close> the responses the successful reads give, and
  \<open>replicaWitnesses\<close> the entry of one replica after the loop, given its entry before.
\<close>

fun firstReadError :: "Server \<Rightarrow> 'a electionReq list \<Rightarrow> error option" where
  "firstReadError s [] = None"
| "firstReadError s (req # reqs) =
     (case LastIndexAndTerm s (key (ch req)) of
        Inl err \<Rightarrow> Some err
      | Inr _ \<Rightarrow> firstReadError s reqs)"

fun localWitnesses :: "Server \<Rightarrow> 'a electionReq list \<Rightarrow> ChannelLastLogInfoResponse list" where
  "localWitnesses s [] = []"
| "localWitnesses s (req # reqs) =
     (case LastIndexAndTerm s (key (ch req)) of
        Inl err \<Rightarrow> localWitnesses s reqs
      | Inr (lastIndex, lastTerm) \<Rightarrow>
          \<lparr>ChannelId = channelId (ch req), ChannelType = channelType (ch req),
           LogIndex = lastIndex, Term = lastTerm\<rparr> # localWitnesses s reqs)"

definition localReadError :: "Server \<Rightarrow> Options \<Rightarrow> 'a electionReq list \<Rightarrow> error option" where
  "localReadError s opts reqs =
     (case map_of (replicaReqMap reqs) (NodeId opts) of
        None \<Rightarrow> None
      | Some rs \<Rightarrow> if NodeOnline s (NodeId opts) then firstReadError s rs else None)"

definition replicaWitnesses ::
  "Server \<Rightarrow> Options \<Rightarrow> (uint64, 'a electionReq) gomap \<Rightarrow>
   ChannelLastLogInfoResponse list option \<Rightarrow> uint64 \<Rightarrow>
   ChannelLastLogInfoResponse list option"
where
  "replicaWitnesses s opts g before rid =
     (case map_of g rid of
        None \<Rightarrow> before
      | Some rs \<Rightarrow>
          if \<not> NodeOnline s rid then before
          else if rid = NodeId opts then
            Some ((case before of None \<Rightarrow> [] | Some v \<Rightarrow> v) @ localWitnesses s rs)
          else
            (case node s rid of
               None \<Rightarrow> before
             | Some requestChannelLastLogInfo \<Rightarrow>
                 (case requestChannelLastLogInfo (logReqsOf rs) of
                    Inl err \<Rightarrow> before
                  | Inr resps \<Rightarrow> Some resps)))"

lemma map_of_mapAppend:
  "map_of (mapAppend m k v) = (map_of m)(k \<mapsto> (case map_of m k of None \<Rightarrow> [] | Some vs \<Rightarrow> vs) @ [v])"
  by (simp add: mapAppend_def update_conv')

lemma distinct_mapAppend: "distinct (map fst m) \<Longrightarrow> distinct (map fst (mapAppend m k v))"
  by (simp add: mapAppend_def distinct_update)

definition nonEmptyValues :: "('k, 'v) gomap \<Rightarrow> bool" where
  "nonEmptyValues m = (\<forall>k vs. map_of m k = Some vs \<longrightarrow> vs \<noteq> [])"

lemma nonEmptyValues_mapAppend: "nonEmptyValues m \<Longrightarrow> nonEmptyValues (mapAppend m k v)"
  by (auto simp: nonEmptyValues_def map_of_mapAppend)

lemma group_inner:
  "distinct (map fst m) \<and> nonEmptyValues m \<Longrightarrow>
   distinct (map fst (foldl (\<lambda>m rid. mapAppend m rid req) m rids)) \<and>
   nonEmptyValues (foldl (\<lambda>m rid. mapAppend m rid req) m rids)"
  by (induction rids arbitrary: m) (simp_all add: distinct_mapAppend nonEmptyValues_mapAppend)

lemma group_outer:
  "distinct (map fst m) \<and> nonEmptyValues m \<Longrightarrow>
   distinct (map fst (foldl (\<lambda>m req. foldl (\<lambda>m rid. mapAppend m rid req) m (Replicas (cfg req))) m reqs)) \<and>
   nonEmptyValues (foldl (\<lambda>m req. foldl (\<lambda>m rid. mapAppend m rid req) m (Replicas (cfg req))) m reqs)"
proof (induction reqs arbitrary: m)
  case Nil
  then show ?case by simp
next
  case (Cons req reqs)
  from group_inner [OF Cons.prems] show ?case
    unfolding foldl_Cons by (rule Cons.IH)
qed

lemma replicaReqMap_wf:
  "distinct (map fst (replicaReqMap reqs))" "nonEmptyValues (replicaReqMap reqs)"
  using group_outer [of "[]" reqs] by (simp_all add: replicaReqMap_def nonEmptyValues_def)

lemma localLastLogInfos_error:
  "firstReadError s rs = Some e \<Longrightarrow> localLastLogInfos s rid rs infos = Inl e"
  by (induction rs arbitrary: infos) (auto split: sum.splits)

lemma localLastLogInfos_ok:
  "firstReadError s rs = None \<Longrightarrow>
   \<exists>infos'. localLastLogInfos s rid rs infos = Inr infos' \<and>
     (\<forall>r. r \<noteq> rid \<longrightarrow> map_of infos' r = map_of infos r) \<and>
     map_of infos' rid =
       (if rs = [] then map_of infos rid
        else Some ((case map_of infos rid of None \<Rightarrow> [] | Some v \<Rightarrow> v) @ localWitnesses s rs))"
proof (induction rs arbitrary: infos)
  case Nil
  then show ?case by simp
next
  case (Cons req rs)
  from Cons.prems obtain lastIndex lastTerm where
    rd: "LastIndexAndTerm s (key (ch req)) = Inr (lastIndex, lastTerm)"
    and rest: "firstReadError s rs = None"
    by (auto split: sum.splits)
  define w where "w = \<lparr>ChannelId = channelId (ch req), ChannelType = channelType (ch req),
           LogIndex = lastIndex, Term = lastTerm\<rparr>"
  from Cons.IH [OF rest, of "mapAppend infos rid w"] obtain infos' where
    r: "localLastLogInfos s rid rs (mapAppend infos rid w) = Inr infos'"
    and o: "\<forall>r. r \<noteq> rid \<longrightarrow> map_of infos' r = map_of (mapAppend infos rid w) r"
    and l: "map_of infos' rid =
       (if rs = [] then map_of (mapAppend infos rid w) rid
        else Some ((case map_of (mapAppend infos rid w) rid of None \<Rightarrow> [] | Some v \<Rightarrow> v) @ localWitnesses s rs))"
    by blast
  have step: "localLastLogInfos s rid (req # rs) infos = Inr infos'"
    using rd r by (simp add: w_def)
  have o': "\<forall>r. r \<noteq> rid \<longrightarrow> map_of infos' r = map_of infos r"
    using o by (simp add: map_of_mapAppend)
  have lw: "localWitnesses s (req # rs) = w # localWitnesses s rs"
    using rd by (simp add: w_def)
  have l': "map_of infos' rid =
      Some ((case map_of infos rid of None \<Rightarrow> [] | Some v \<Rightarrow> v) @ localWitnesses s (req # rs))"
    unfolding l lw by (simp add: map_of_mapAppend)
  show ?case
    using step o' l' by simp
qed

definition groupReadError :: "Server \<Rightarrow> Options \<Rightarrow> (uint64, 'a electionReq) gomap \<Rightarrow> error option" where
  "groupReadError s opts g =
     (case map_of g (NodeId opts) of
        None \<Rightarrow> None
      | Some rs \<Rightarrow> if NodeOnline s (NodeId opts) then firstReadError s rs else None)"

lemma replicaWitnesses_absent:
  "map_of g rid = None \<Longrightarrow> replicaWitnesses s opts g before rid = before"
  by (simp add: replicaWitnesses_def)

lemma replicaWitnesses_Cons_other:
  "rid \<noteq> k \<Longrightarrow> replicaWitnesses s opts ((k, rs) # rest) before rid = replicaWitnesses s opts rest before rid"
  by (simp add: replicaWitnesses_def)

lemma groupReadError_Cons_other:
  "k \<noteq> NodeId opts \<Longrightarrow> groupReadError s opts ((k, rs) # rest) = groupReadError s opts rest"
  by (simp add: groupReadError_def)

lemma groupReadError_absent:
  "map_of g (NodeId opts) = None \<Longrightarrow> groupReadError s opts g = None"
  by (simp add: groupReadError_def)

definition collected ::
  "Server \<Rightarrow> Options \<Rightarrow> (uint64, 'a electionReq) gomap \<Rightarrow>
   (uint64, ChannelLastLogInfoResponse) gomap \<Rightarrow> bool"
where
  "collected s opts g infos =
     (case groupReadError s opts g of
        Some e \<Rightarrow> collectLastLogInfos s opts g infos = Inl e
      | None \<Rightarrow>
          (\<exists>infos'. collectLastLogInfos s opts g infos = Inr infos' \<and>
             (\<forall>rid. map_of infos' rid = replicaWitnesses s opts g (map_of infos rid) rid)))"

text \<open>An entry that adds nothing: offline, no handle, or a failed call.\<close>

lemma collected_skip:
  assumes IH: "collected s opts rest infos"
    and absent: "map_of rest k = None"
    and step: "collectLastLogInfos s opts ((k, rs) # rest) infos = collectLastLogInfos s opts rest infos"
    and same: "replicaWitnesses s opts ((k, rs) # rest) (map_of infos k) k = map_of infos k"
    and err: "groupReadError s opts ((k, rs) # rest) = groupReadError s opts rest"
  shows "collected s opts ((k, rs) # rest) infos"
proof (cases "groupReadError s opts rest")
  case (Some e)
  with IH show ?thesis unfolding collected_def err step by simp
next
  case None
  with IH obtain infos' where r: "collectLastLogInfos s opts rest infos = Inr infos'"
    and w: "\<forall>rid. map_of infos' rid = replicaWitnesses s opts rest (map_of infos rid) rid"
    unfolding collected_def by auto
  have "map_of infos' rid = replicaWitnesses s opts ((k, rs) # rest) (map_of infos rid) rid" for rid
  proof (cases "rid = k")
    case True
    then show ?thesis
      using w same replicaWitnesses_absent [OF absent, of s opts "map_of infos k"] by simp
  next
    case False
    then show ?thesis using w by (simp add: replicaWitnesses_Cons_other)
  qed
  with r None show ?thesis unfolding collected_def err step by simp
qed

text \<open>An entry that stores \<open>v\<close> under \<open>k\<close> and leaves the other keys alone.\<close>

lemma collected_store:
  assumes IH: "collected s opts rest infos1"
    and absent: "map_of rest k = None"
    and step: "collectLastLogInfos s opts ((k, rs) # rest) infos = collectLastLogInfos s opts rest infos1"
    and others: "\<forall>r. r \<noteq> k \<longrightarrow> map_of infos1 r = map_of infos r"
    and stored: "replicaWitnesses s opts ((k, rs) # rest) (map_of infos k) k = map_of infos1 k"
    and err: "groupReadError s opts ((k, rs) # rest) = None"
    and err': "groupReadError s opts rest = None"
  shows "collected s opts ((k, rs) # rest) infos"
proof -
  from IH err' obtain infos' where r: "collectLastLogInfos s opts rest infos1 = Inr infos'"
    and w: "\<forall>rid. map_of infos' rid = replicaWitnesses s opts rest (map_of infos1 rid) rid"
    unfolding collected_def by auto
  have "map_of infos' rid = replicaWitnesses s opts ((k, rs) # rest) (map_of infos rid) rid" for rid
  proof (cases "rid = k")
    case True
    then show ?thesis
      using w stored replicaWitnesses_absent [OF absent, of s opts "map_of infos1 k"] by simp
  next
    case False
    with others have "map_of infos1 rid = map_of infos rid" by simp
    with False w show ?thesis
      by (simp add: replicaWitnesses_Cons_other)
  qed
  with r show ?thesis unfolding collected_def err step by simp
qed

lemma collectLastLogInfos_collected:
  assumes "distinct (map fst g)" and "\<forall>(k, rs) \<in> set g. rs \<noteq> []"
  shows "collected s opts g infos"
  using assms
proof (induction g arbitrary: infos)
  case Nil
  show ?case by (simp add: collected_def groupReadError_def replicaWitnesses_def)
next
  case (Cons a rest)
  obtain k rs where a: "a = (k, rs)" by (cases a)
  from Cons.prems a have d: "distinct (map fst rest)" and kn: "k \<notin> fst ` set rest"
    and ne: "\<forall>(k, rs) \<in> set rest. rs \<noteq> []" and rs: "rs \<noteq> []"
    by auto
  from kn have absent: "map_of rest k = None" by (simp add: map_of_eq_None_iff)
  note IH = Cons.IH [OF d ne]
  have "collected s opts ((k, rs) # rest) infos" for infos
  proof (cases "NodeOnline s k")
    case False
    have err: "groupReadError s opts ((k, rs) # rest) = groupReadError s opts rest"
      using False absent by (cases "k = NodeId opts") (simp_all add: groupReadError_def)
    show "collected s opts ((k, rs) # rest) infos"
      using False by (intro collected_skip [OF IH absent _ _ err]) (simp_all add: replicaWitnesses_def)
  next
    case True
    show "collected s opts ((k, rs) # rest) infos"
    proof (cases "k = NodeId opts")
      case local: True
      have err: "groupReadError s opts ((k, rs) # rest) = firstReadError s rs"
        using True local by (simp add: groupReadError_def)
      show ?thesis
      proof (cases "firstReadError s rs")
        case (Some e)
        from localLastLogInfos_error [OF Some] show ?thesis
          unfolding collected_def err Some using True local by simp
      next
        case None
        from localLastLogInfos_ok [OF None, of k infos] obtain infos1 where
          r: "localLastLogInfos s k rs infos = Inr infos1"
          and o: "\<forall>r. r \<noteq> k \<longrightarrow> map_of infos1 r = map_of infos r"
          and l: "map_of infos1 k = Some ((case map_of infos k of None \<Rightarrow> [] | Some v \<Rightarrow> v) @ localWitnesses s rs)"
          using rs by auto
        have step: "collectLastLogInfos s opts ((k, rs) # rest) infos = collectLastLogInfos s opts rest infos1"
          using True local r by simp
        have stored: "replicaWitnesses s opts ((k, rs) # rest) (map_of infos k) k = map_of infos1 k"
          using True local l by (simp add: replicaWitnesses_def)
        have err': "groupReadError s opts rest = None"
          using absent local by (simp add: groupReadError_absent)
        show ?thesis
          by (rule collected_store [OF IH absent step o stored _ err']) (simp add: err None)
      qed
    next
      case remote: False
      have err: "groupReadError s opts ((k, rs) # rest) = groupReadError s opts rest"
        by (rule groupReadError_Cons_other [OF remote])
      show ?thesis
      proof (cases "node s k")
        case None
        show ?thesis
          using True remote None
          by (intro collected_skip [OF IH absent _ _ err]) (simp_all add: replicaWitnesses_def)
      next
        case (Some call)
        show ?thesis
        proof (cases "call (logReqsOf rs)")
          case (Inl e)
          show ?thesis
            using True remote Some Inl
            by (intro collected_skip [OF IH absent _ _ err]) (simp_all add: replicaWitnesses_def)
        next
          case (Inr resps)
          have step: "collectLastLogInfos s opts ((k, rs) # rest) infos =
              collectLastLogInfos s opts rest (AList.update k resps infos)"
            using True remote Some Inr by simp
          have o: "\<forall>r. r \<noteq> k \<longrightarrow> map_of (AList.update k resps infos) r = map_of infos r"
            by (simp add: update_conv')
          have stored: "replicaWitnesses s opts ((k, rs) # rest) (map_of infos k) k =
              map_of (AList.update k resps infos) k"
            using True remote Some Inr by (simp add: replicaWitnesses_def update_conv')
          show ?thesis
          proof (cases "groupReadError s opts rest")
            case None
            show ?thesis
              by (rule collected_store [OF IH absent step o stored _ None]) (simp add: err None)
          next
            case (Some e)
            with IH [of "AList.update k resps infos"] show ?thesis
              unfolding collected_def err step by simp
          qed
        qed
      qed
    qed
  qed
  then show ?case unfolding a by (rule allE [OF allI])
qed

definition valuesWithin :: "('k, 'v) gomap \<Rightarrow> 'v set \<Rightarrow> bool" where
  "valuesWithin m S = (\<forall>k vs. map_of m k = Some vs \<longrightarrow> set vs \<subseteq> S)"

lemma valuesWithin_mapAppend: "valuesWithin m S \<Longrightarrow> v \<in> S \<Longrightarrow> valuesWithin (mapAppend m k v) S"
  unfolding valuesWithin_def map_of_mapAppend
  by (cases "map_of m k") (fastforce split: if_splits)+

lemma within_inner:
  "valuesWithin m S \<Longrightarrow> req \<in> S \<Longrightarrow>
   valuesWithin (foldl (\<lambda>m rid. mapAppend m rid req) m rids) S"
  by (induction rids arbitrary: m) (simp_all add: valuesWithin_mapAppend)

lemma within_outer:
  "valuesWithin m S \<Longrightarrow> set reqs \<subseteq> S \<Longrightarrow>
   valuesWithin (foldl (\<lambda>m req. foldl (\<lambda>m rid. mapAppend m rid req) m (Replicas (cfg req))) m reqs) S"
  by (induction reqs arbitrary: m) (simp_all add: within_inner)

lemma replicaReqMap_within: "valuesWithin (replicaReqMap reqs) (set reqs)"
  using within_outer [of "[]" "set reqs" reqs] by (simp add: replicaReqMap_def valuesWithin_def)

lemma firstReadError_source:
  "firstReadError s rs = Some e \<Longrightarrow> \<exists>req \<in> set rs. LastIndexAndTerm s (key (ch req)) = Inl e"
  by (induction rs) (auto split: sum.splits)

lemma groupReadError_source:
  assumes "groupReadError s opts (replicaReqMap reqs) = Some e"
  shows "NodeOnline s (NodeId opts) \<and> (\<exists>req \<in> set reqs. LastIndexAndTerm s (key (ch req)) = Inl e)"
proof -
  from assms obtain rs where m: "map_of (replicaReqMap reqs) (NodeId opts) = Some rs"
    and on: "NodeOnline s (NodeId opts)" and f: "firstReadError s rs = Some e"
    by (auto simp: groupReadError_def split: option.splits if_splits)
  from replicaReqMap_within m have "set rs \<subseteq> set reqs"
    unfolding valuesWithin_def by blast
  with firstReadError_source [OF f] on show ?thesis by blast
qed

lemma replicaReqMap_collected: "collected s opts (replicaReqMap reqs) []"
proof (rule collectLastLogInfos_collected)
  show "distinct (map fst (replicaReqMap reqs))" by (rule replicaReqMap_wf)
  have "rs \<noteq> []" if "(k, rs) \<in> set (replicaReqMap reqs)" for k rs
  proof -
    from that replicaReqMap_wf(1) [of reqs] have "map_of (replicaReqMap reqs) k = Some rs"
      by simp
    with replicaReqMap_wf(2) [of reqs] show ?thesis unfolding nonEmptyValues_def by blast
  qed
  then show "\<forall>(k, rs) \<in> set (replicaReqMap reqs). rs \<noteq> []" by auto
qed

text \<open>
  C7. Witness collection fails only through the local store: when no read of the local
  replica fails it returns a map, whatever the remote calls did, in which a remote
  replica that is offline, has no node handle or whose call failed has no entry and
  every other replica has its witnesses; when a read of the local replica fails it
  returns that error, and \<^verbatim>\<open>election\<close> then sends the same error to the result
  channel of every request of the batch; and an error it returns is always the error of
  a \<^verbatim>\<open>LastIndexAndTerm\<close> call for one of the requests, made with the local node
  online.
\<close>

theorem requestChannelLastLogInfos_errors:
  "(groupReadError s opts (replicaReqMap reqs) = None \<longrightarrow>
      (\<exists>infos. requestChannelLastLogInfos s opts reqs = Inr infos \<and>
         (\<forall>rid. map_of infos rid = replicaWitnesses s opts (replicaReqMap reqs) None rid))) \<and>
   (groupReadError s opts (replicaReqMap reqs) = Some err \<longrightarrow>
      requestChannelLastLogInfos s opts reqs = Inl err \<and>
      election s opts stopWins reqs = map (\<lambda>req. (resultC req, Inl err)) reqs) \<and>
   (requestChannelLastLogInfos s opts reqs = Inl err \<longrightarrow>
      groupReadError s opts (replicaReqMap reqs) = Some err \<and>
      NodeOnline s (NodeId opts) \<and>
      (\<exists>req \<in> set reqs. LastIndexAndTerm s (key (ch req)) = Inl err))"
proof (intro conjI impI)
  assume n: "groupReadError s opts (replicaReqMap reqs) = None"
  with replicaReqMap_collected [of s opts reqs]
  show "\<exists>infos. requestChannelLastLogInfos s opts reqs = Inr infos \<and>
         (\<forall>rid. map_of infos rid = replicaWitnesses s opts (replicaReqMap reqs) None rid)"
    unfolding collected_def requestChannelLastLogInfos_def by simp
next
  assume e: "groupReadError s opts (replicaReqMap reqs) = Some err"
  with replicaReqMap_collected [of s opts reqs]
  show r: "requestChannelLastLogInfos s opts reqs = Inl err"
    unfolding collected_def requestChannelLastLogInfos_def by simp
  show "election s opts stopWins reqs = map (\<lambda>req. (resultC req, Inl err)) reqs"
    unfolding election_def r by simp
next
  assume r: "requestChannelLastLogInfos s opts reqs = Inl err"
  show e: "groupReadError s opts (replicaReqMap reqs) = Some err"
  proof (cases "groupReadError s opts (replicaReqMap reqs)")
    case None
    with replicaReqMap_collected [of s opts reqs] r show ?thesis
      unfolding collected_def requestChannelLastLogInfos_def by simp
  next
    case (Some e')
    with replicaReqMap_collected [of s opts reqs] r show ?thesis
      unfolding collected_def requestChannelLastLogInfos_def by simp
  qed
  from groupReadError_source [OF e] show "NodeOnline s (NodeId opts)" by simp
  from groupReadError_source [OF e]
  show "\<exists>req \<in> set reqs. LastIndexAndTerm s (key (ch req)) = Inl err" by simp
qed

definition scenarioNew_infos :: "(uint64, ChannelLastLogInfoResponse) gomap" where
  "scenarioNew_infos =
     [(1, [\<lparr>ChannelId = ''c1'', ChannelType = 2, LogIndex = 0, Term = 0\<rparr>]),
      (2, [\<lparr>ChannelId = ''c1'', ChannelType = 2, LogIndex = 0, Term = 0\<rparr>]),
      (3, [\<lparr>ChannelId = ''c1'', ChannelType = 2, LogIndex = 0, Term = 0\<rparr>])]"

lemma scenarioNew_collect:
  "requestChannelLastLogInfos scenarioNew_server scenario_opts [scenario_req] = Inr scenarioNew_infos"
  unfolding requestChannelLastLogInfos_def replicaReqMap_scenario
  by (simp add: scenarioNew_server_def scenario_opts_def scenarioNew_infos_def mapAppend_def
      logReqsOf_def witnessReply_def scenario_req_def)

lemma scenario_quorum: "quorum scenario_opts = 2"
  by (simp add: quorum_def scenario_opts_def)

lemma scenarioS2_witnesses:
  "lastInfoRespsOf (ch scenario_req) scenarioS2_infos =
     [\<lparr>ChannelId = ''c1'', ChannelType = 2, LogIndex = 5, Term = 3, replicaId = 1\<rparr>,
      \<lparr>ChannelId = ''c1'', ChannelType = 2, LogIndex = 100, Term = 2, replicaId = 2\<rparr>,
      \<lparr>ChannelId = ''c1'', ChannelType = 2, LogIndex = 50, Term = 3, replicaId = 3\<rparr>]"
  by (simp add: lastInfoRespsOf_def scenarioS2_infos_def scenario_req_def)

lemma scenarioS2_leader:
  "channelLeaderIDByLogInfo (lastInfoRespsOf (ch scenario_req) scenarioS2_infos) = 3"
  unfolding scenarioS2_witnesses by (simp add: channelLeaderIDByLogInfo_def)

lemma scenarioNew_witnesses:
  "lastInfoRespsOf (ch scenario_req) scenarioNew_infos =
     [\<lparr>ChannelId = ''c1'', ChannelType = 2, LogIndex = 0, Term = 0, replicaId = 1\<rparr>,
      \<lparr>ChannelId = ''c1'', ChannelType = 2, LogIndex = 0, Term = 0, replicaId = 2\<rparr>,
      \<lparr>ChannelId = ''c1'', ChannelType = 2, LogIndex = 0, Term = 0, replicaId = 3\<rparr>]"
  by (simp add: lastInfoRespsOf_def scenarioNew_infos_def scenario_req_def)

lemma scenarioS2_election:
  "election scenarioS2_server scenario_opts (\<lambda>_. False) [scenario_req] =
     [(0, Inr \<lparr>cfgChannelId = ''c1'', cfgChannelType = 2, Replicas = [1, 2, 3], cfgTerm = 8,
               LeaderId = 3\<rparr>)]"
proof -
  have "electionResult 2 scenarioS2_infos scenario_req =
      Inr \<lparr>cfgChannelId = ''c1'', cfgChannelType = 2, Replicas = [1, 2, 3], cfgTerm = 8,
               LeaderId = 3\<rparr>"
    unfolding electionResult_cases scenarioS2_witnesses
    by (simp add: channelLeaderIDByLogInfo_def scenario_req_def)
  then show ?thesis
    unfolding election_def scenarioS2_collect scenario_quorum
    by (simp add: scenario_req_def)
qed

text \<open>
  A channel whose replicas all report an empty log: three witnesses, quorum two, and the
  response is \<^verbatim>\<open>ErrNoLeader\<close>, not a new config. Meeting the quorum is not
  sufficient for success.
\<close>

theorem election_quorum_without_leader:
  "requestChannelLastLogInfos scenarioNew_server scenario_opts [scenario_req] = Inr scenarioNew_infos \<and>
   length (lastInfoRespsOf (ch scenario_req) scenarioNew_infos) = 3 \<and>
   quorum scenario_opts = 2 \<and>
   election scenarioNew_server scenario_opts (\<lambda>_. False) [scenario_req] = [(0, Inl ErrNoLeader)]"
proof -
  have "electionResult 2 scenarioNew_infos scenario_req = Inl ErrNoLeader"
    unfolding electionResult_cases scenarioNew_witnesses
    by (simp add: channelLeaderIDByLogInfo_def)
  then have "election scenarioNew_server scenario_opts (\<lambda>_. False) [scenario_req] = [(0, Inl ErrNoLeader)]"
    unfolding election_def scenarioNew_collect scenario_quorum
    by (simp add: scenario_req_def)
  then show ?thesis
    by (simp add: scenarioNew_collect scenarioNew_witnesses scenario_quorum)
qed

theorem election_success_iff_witness:
  "requestChannelLastLogInfos scenarioS2_server scenario_opts [scenario_req] = Inr scenarioS2_infos \<and>
   0 < length [scenario_req] \<and>
   0 < length (election scenarioS2_server scenario_opts (\<lambda>_. False) [scenario_req]) \<and>
   (\<exists>cfg'. snd (election scenarioS2_server scenario_opts (\<lambda>_. False) [scenario_req] ! 0) = Inr cfg') \<and>
   quorum scenario_opts \<le> length (lastInfoRespsOf (ch ([scenario_req] ! 0)) scenarioS2_infos) \<and>
   channelLeaderIDByLogInfo (lastInfoRespsOf (ch ([scenario_req] ! 0)) scenarioS2_infos) \<noteq> 0"
proof -
  have h2: "0 < length [scenario_req]" by simp
  have h3: "\<forall>j \<le> 0. \<not> (\<lambda>_. False) j" by simp
  have s: "\<exists>cfg'. snd (election scenarioS2_server scenario_opts (\<lambda>_. False) [scenario_req] ! 0) = Inr cfg'"
    by (simp add: scenarioS2_election)
  from election_success_iff [OF scenarioS2_collect h2 h3] s
  have "0 < length (election scenarioS2_server scenario_opts (\<lambda>_. False) [scenario_req]) \<and>
     quorum scenario_opts \<le> length (lastInfoRespsOf (ch ([scenario_req] ! 0)) scenarioS2_infos) \<and>
     channelLeaderIDByLogInfo (lastInfoRespsOf (ch ([scenario_req] ! 0)) scenarioS2_infos) \<noteq> 0"
    by simp
  with s scenarioS2_collect show ?thesis by simp
qed

theorem election_frame_witness:
  "requestChannelLastLogInfos scenarioS2_server scenario_opts [scenario_req] = Inr scenarioS2_infos \<and>
   0 < length (election scenarioS2_server scenario_opts (\<lambda>_. False) [scenario_req]) \<and>
   snd (election scenarioS2_server scenario_opts (\<lambda>_. False) [scenario_req] ! 0) =
     Inr \<lparr>cfgChannelId = ''c1'', cfgChannelType = 2, Replicas = [1, 2, 3], cfgTerm = 8, LeaderId = 3\<rparr> \<and>
   cfgTerm \<lparr>cfgChannelId = ''c1'', cfgChannelType = 2, Replicas = [1, 2, 3], cfgTerm = 8, LeaderId = 3\<rparr> =
     cfgTerm (cfg ([scenario_req] ! 0)) + 1 \<and>
   Replicas \<lparr>cfgChannelId = ''c1'', cfgChannelType = 2, Replicas = [1, 2, 3], cfgTerm = 8, LeaderId = (3::uint64)\<rparr> =
     Replicas (cfg ([scenario_req] ! 0))"
proof -
  have h2: "0 < length (election scenarioS2_server scenario_opts (\<lambda>_. False) [scenario_req])"
    by (simp add: scenarioS2_election)
  have h3: "snd (election scenarioS2_server scenario_opts (\<lambda>_. False) [scenario_req] ! 0) =
     Inr \<lparr>cfgChannelId = ''c1'', cfgChannelType = 2, Replicas = [1, 2, 3], cfgTerm = 8, LeaderId = 3\<rparr>"
    by (simp add: scenarioS2_election)
  from election_frame [OF scenarioS2_collect h2 h3] h2 h3 scenarioS2_collect
  show ?thesis by simp
qed

text \<open>
  Scenario S2 with the input term at the top of its 32-bit range: the election succeeds
  and the emitted term is 0, not 4294967296.
\<close>

definition scenarioMaxTerm_req :: "unit electionReq" where
  "scenarioMaxTerm_req = scenario_req\<lparr>cfg := (cfg scenario_req)\<lparr>cfgTerm := 4294967295\<rparr>\<rparr>"

lemma replicaReqMap_scenarioMaxTerm:
  "replicaReqMap [scenarioMaxTerm_req] =
     [(1, [scenarioMaxTerm_req]), (2, [scenarioMaxTerm_req]), (3, [scenarioMaxTerm_req])]"
  by (simp add: replicaReqMap_def mapAppend_def scenarioMaxTerm_req_def scenario_req_def)

lemma scenarioMaxTerm_collect:
  "requestChannelLastLogInfos scenarioS2_server scenario_opts [scenarioMaxTerm_req] = Inr scenarioS2_infos"
  unfolding requestChannelLastLogInfos_def replicaReqMap_scenarioMaxTerm
  by (simp add: scenarioS2_server_def scenario_opts_def scenarioS2_infos_def mapAppend_def
      logReqsOf_def witnessReply_def scenarioMaxTerm_req_def scenario_req_def)

theorem election_term_wraps:
  "cfgTerm (cfg scenarioMaxTerm_req) = 4294967295 \<and>
   election scenarioS2_server scenario_opts (\<lambda>_. False) [scenarioMaxTerm_req] =
     [(0, Inr \<lparr>cfgChannelId = ''c1'', cfgChannelType = 2, Replicas = [1, 2, 3], cfgTerm = 0,
               LeaderId = 3\<rparr>)]"
proof -
  have c: "ch scenarioMaxTerm_req = ch scenario_req"
    by (simp add: scenarioMaxTerm_req_def)
  have "electionResult 2 scenarioS2_infos scenarioMaxTerm_req =
      Inr \<lparr>cfgChannelId = ''c1'', cfgChannelType = 2, Replicas = [1, 2, 3], cfgTerm = 0,
               LeaderId = 3\<rparr>"
    unfolding electionResult_cases c scenarioS2_witnesses
    by (simp add: channelLeaderIDByLogInfo_def scenarioMaxTerm_req_def scenario_req_def)
  then have "election scenarioS2_server scenario_opts (\<lambda>_. False) [scenarioMaxTerm_req] =
     [(0, Inr \<lparr>cfgChannelId = ''c1'', cfgChannelType = 2, Replicas = [1, 2, 3], cfgTerm = 0,
               LeaderId = 3\<rparr>)]"
    unfolding election_def scenarioMaxTerm_collect scenario_quorum
    by (simp add: scenarioMaxTerm_req_def scenario_req_def)
  then show ?thesis by (simp add: scenarioMaxTerm_req_def scenario_req_def)
qed

definition scenarioDown_server :: Server where
  "scenarioDown_server =
     \<lparr>NodeOnline = (\<lambda>_. True),
      LastIndexAndTerm = (\<lambda>_. Inr (5, 3)),
      node = (\<lambda>rid. if rid = 2 then Some (\<lambda>_. Inl (ErrorString ''context deadline exceeded''))
                     else None)\<rparr>"

definition scenarioBroken_server :: Server where
  "scenarioBroken_server =
     \<lparr>NodeOnline = (\<lambda>_. True),
      LastIndexAndTerm = (\<lambda>_. Inl (ErrorString ''pebble: closed'')),
      node = (\<lambda>rid. Some (witnessReply 100 2))\<rparr>"

lemma scenarioDown_noError:
  "groupReadError scenarioDown_server scenario_opts (replicaReqMap [scenario_req]) = None"
  unfolding replicaReqMap_scenario
  by (simp add: groupReadError_def scenario_opts_def scenarioDown_server_def)

lemma scenarioBroken_error:
  "groupReadError scenarioBroken_server scenario_opts (replicaReqMap [scenario_req]) =
     Some (ErrorString ''pebble: closed'')"
  unfolding replicaReqMap_scenario
  by (simp add: groupReadError_def scenario_opts_def scenarioBroken_server_def)

theorem requestChannelLastLogInfos_errors_witness:
  "groupReadError scenarioDown_server scenario_opts (replicaReqMap [scenario_req]) = None \<and>
   (\<exists>infos. requestChannelLastLogInfos scenarioDown_server scenario_opts [scenario_req] = Inr infos \<and>
      map_of infos 1 = Some [\<lparr>ChannelId = ''c1'', ChannelType = 2, LogIndex = 5, Term = 3\<rparr>] \<and>
      map_of infos 2 = None \<and> map_of infos 3 = None) \<and>
   groupReadError scenarioBroken_server scenario_opts (replicaReqMap [scenario_req]) =
     Some (ErrorString ''pebble: closed'') \<and>
   requestChannelLastLogInfos scenarioBroken_server scenario_opts [scenario_req] =
     Inl (ErrorString ''pebble: closed'') \<and>
   election scenarioBroken_server scenario_opts (\<lambda>_. False) [scenario_req] =
     [(0, Inl (ErrorString ''pebble: closed''))]"
proof -
  from requestChannelLastLogInfos_errors [of scenarioDown_server scenario_opts "[scenario_req]"]
    scenarioDown_noError
  obtain infos where i: "requestChannelLastLogInfos scenarioDown_server scenario_opts [scenario_req] = Inr infos"
    and w: "\<forall>rid. map_of infos rid =
      replicaWitnesses scenarioDown_server scenario_opts (replicaReqMap [scenario_req]) None rid"
    by blast
  have w1: "map_of infos 1 = Some [\<lparr>ChannelId = ''c1'', ChannelType = 2, LogIndex = 5, Term = 3\<rparr>]"
    unfolding w [rule_format] replicaReqMap_scenario
    by (simp add: replicaWitnesses_def scenario_opts_def scenarioDown_server_def scenario_req_def)
  have w2: "map_of infos 2 = None"
    unfolding w [rule_format] replicaReqMap_scenario
    by (simp add: replicaWitnesses_def scenario_opts_def scenarioDown_server_def)
  have w3: "map_of infos 3 = None"
    unfolding w [rule_format] replicaReqMap_scenario
    by (simp add: replicaWitnesses_def scenario_opts_def scenarioDown_server_def)
  from requestChannelLastLogInfos_errors
    [of scenarioBroken_server scenario_opts "[scenario_req]" "ErrorString ''pebble: closed''" "\<lambda>_. False"]
    scenarioBroken_error
  have b: "requestChannelLastLogInfos scenarioBroken_server scenario_opts [scenario_req] =
       Inl (ErrorString ''pebble: closed'') \<and>
     election scenarioBroken_server scenario_opts (\<lambda>_. False) [scenario_req] =
       [(0, Inl (ErrorString ''pebble: closed''))]"
    by (simp add: scenario_req_def)
  from i w1 w2 w3 have "\<exists>infos. requestChannelLastLogInfos scenarioDown_server scenario_opts [scenario_req] = Inr infos \<and>
      map_of infos 1 = Some [\<lparr>ChannelId = ''c1'', ChannelType = 2, LogIndex = 5, Term = 3\<rparr>] \<and>
      map_of infos 2 = None \<and> map_of infos 3 = None"
    by (intro exI [of _ infos] conjI)
  with scenarioDown_noError scenarioBroken_error b show ?thesis by (intro conjI) simp_all
qed

section \<open>The coordinator's queue and worker loop\<close>

text \<open>
  The state of a \<^verbatim>\<open>channelElectionManager\<close> that the queue operations touch: the
  requests buffered in the channel \<^verbatim>\<open>electionC\<close>, oldest first, and whether the
  stopper has been signalled (\<^verbatim>\<open>ShouldStop()\<close> is then ready to receive).
  \<^verbatim>\<open>newChannelElectionManager\<close> makes the channel with room for 1000 requests.
\<close>

record 'a channelElectionManager =
  electionC :: "'a electionReq list"
  shouldStop :: bool

definition electionC_cap :: nat where
  "electionC_cap = 1000"

definition newChannelElectionManager :: "'a channelElectionManager" where
  "newChannelElectionManager = \<lparr>electionC = [], shouldStop = False\<rparr>"

text \<open>
  \<^verbatim>\<open>addElectionReq\<close> is one \<^verbatim>\<open>select\<close> with a send, a receive from the stopper
  and a \<^verbatim>\<open>default\<close>. The send can proceed when the buffer has room, the receive
  when the stopper is signalled; Go takes \<^verbatim>\<open>default\<close> only when neither can, and
  when both can it takes either: \<open>sendWins\<close> is that choice.
\<close>

definition addElectionReq ::
  "bool \<Rightarrow> 'a channelElectionManager \<Rightarrow> 'a electionReq \<Rightarrow> error option \<times> 'a channelElectionManager"
where
  "addElectionReq sendWins c req =
     (let canSend = length (electionC c) < electionC_cap;
          sent = (None, c\<lparr>electionC := electionC c @ [req]\<rparr>)
      in if canSend \<and> shouldStop c then (if sendWins then sent else (Some ErrStopped, c))
         else if canSend then sent
         else if shouldStop c then (Some ErrStopped, c)
         else (Some ErrChannelElectionCIsFull, c))"

text \<open>
  The worker loop, for a run during which no producer adds to the queue. \<open>drain\<close> is
  the inner \<^verbatim>\<open>for done := false; !done && reqLen < MaxChannelElectionBatchLen\<close>
  loop: it returns the counter, the batch and the rest of the queue, or \<open>None\<close> when
  the stop case is taken (\<open>stopWins\<close> is the choice of the \<^verbatim>\<open>select\<close> when a request
  and the stop signal are both ready). \<open>loop\<close> is the outer loop; it returns the
  batches handed to \<^verbatim>\<open>channelElectionPool.Submit\<close>, in order, and ends when the
  queue is empty (the source then waits) or the stop case is taken. The counter
  \<^verbatim>\<open>reqLen\<close> is declared before the outer loop and only ever incremented; the slice
  \<^verbatim>\<open>electionReqs\<close> is emptied after each submission.
\<close>

fun drain ::
  "int \<Rightarrow> bool \<Rightarrow> bool \<Rightarrow> int \<Rightarrow> 'r list \<Rightarrow> 'r list \<Rightarrow> (int \<times> 'r list \<times> 'r list) option"
where
  "drain maxLen stop stopWins reqLen electionReqs [] =
     (if reqLen < maxLen then (if stop then None else Some (reqLen, electionReqs, []))
      else Some (reqLen, electionReqs, []))"
| "drain maxLen stop stopWins reqLen electionReqs (r # queue) =
     (if reqLen < maxLen then
        (if stop \<and> stopWins then None
         else drain maxLen stop stopWins (reqLen + 1) (electionReqs @ [r]) queue)
      else Some (reqLen, electionReqs, r # queue))"

lemma drain_queue_length:
  "drain maxLen stop stopWins reqLen electionReqs queue = Some (reqLen', batch, queue') \<Longrightarrow>
   length queue' \<le> length queue"
proof (induction queue arbitrary: reqLen electionReqs)
  case Nil
  then show ?case by (simp split: if_splits)
next
  case (Cons r queue)
  show ?case
  proof (cases "reqLen < maxLen")
    case True
    with Cons.prems have "drain maxLen stop stopWins (reqLen + 1) (electionReqs @ [r]) queue =
        Some (reqLen', batch, queue')"
      by (simp split: if_splits)
    from Cons.IH [OF this] show ?thesis by simp
  next
    case False
    with Cons.prems show ?thesis by simp
  qed
qed

function loop :: "int \<Rightarrow> bool \<Rightarrow> bool \<Rightarrow> int \<Rightarrow> 'r list \<Rightarrow> 'r list list" where
  "loop maxLen stop stopWins reqLen [] = []"
| "loop maxLen stop stopWins reqLen (req # queue) =
     (if stop \<and> stopWins then []
      else
        (case drain maxLen stop stopWins (reqLen + 1) [req] queue of
           None \<Rightarrow> []
         | Some (reqLen', electionReqs, queue') \<Rightarrow>
             electionReqs # loop maxLen stop stopWins reqLen' queue'))"
  by pat_completeness auto
termination
  by (relation "measure (\<lambda>(maxLen, stop, stopWins, reqLen, queue). length queue)")
    (auto dest: drain_queue_length)

definition queued :: "nat \<Rightarrow> unit electionReq" where
  "queued n = scenario_req\<lparr>resultC := n\<rparr>"


lemma drain_full:
  "maxLen \<le> reqLen \<Longrightarrow> drain maxLen stop stopWins reqLen electionReqs queue = Some (reqLen, electionReqs, queue)"
  by (cases queue) simp_all

lemma loop_after_full:
  "maxLen \<le> reqLen + 1 \<Longrightarrow> loop maxLen False stopWins reqLen queue = map (\<lambda>req. [req]) queue"
  by (induction queue arbitrary: reqLen) (simp_all add: drain_full)

text \<open>
  C8 (evaluation at the failing input). With \<^verbatim>\<open>MaxChannelElectionBatchLen = 2\<close> and
  four requests queued, the first batch holds two requests and every later batch holds
  one, although two requests are queued when the second batch is formed.
\<close>

theorem loop_batches_shrink:
  "loop 2 False False 0 [queued 1, queued 2, queued 3, queued 4] =
     [[queued 1, queued 2], [queued 3], [queued 4]]"
  by simp

text \<open>
  C9 (as amended). \<^verbatim>\<open>addElectionReq\<close> always returns at once. Not stopping and
  1000 requests pending: \<^verbatim>\<open>ErrChannelElectionCIsFull\<close>, queue unchanged. Stopping
  and 1000 requests pending: \<^verbatim>\<open>ErrStopped\<close>, queue unchanged. Not stopping and room
  in the queue: the request is appended and \<^verbatim>\<open>nil\<close> returned. Stopping and room in
  the queue: either of the two, as the \<^verbatim>\<open>select\<close> chooses.
\<close>

theorem addElectionReq_outcomes:
  "(\<not> shouldStop c \<and> electionC_cap \<le> length (electionC c) \<longrightarrow>
      addElectionReq sendWins c req = (Some ErrChannelElectionCIsFull, c)) \<and>
   (shouldStop c \<and> electionC_cap \<le> length (electionC c) \<longrightarrow>
      addElectionReq sendWins c req = (Some ErrStopped, c)) \<and>
   (\<not> shouldStop c \<and> length (electionC c) < electionC_cap \<longrightarrow>
      addElectionReq sendWins c req = (None, c\<lparr>electionC := electionC c @ [req]\<rparr>)) \<and>
   (shouldStop c \<and> length (electionC c) < electionC_cap \<longrightarrow>
      addElectionReq True c req = (None, c\<lparr>electionC := electionC c @ [req]\<rparr>) \<and>
      addElectionReq False c req = (Some ErrStopped, c))"
  by (simp add: addElectionReq_def Let_def)

text \<open>
  A stopping coordinator with an empty queue: the send case is ready too, and when the
  \<^verbatim>\<open>select\<close> takes it the request is enqueued and \<^verbatim>\<open>nil\<close> returned.
\<close>

theorem addElectionReq_enqueues_while_stopping:
  "shouldStop \<lparr>electionC = [], shouldStop = True\<rparr> \<and>
   addElectionReq True \<lparr>electionC = [], shouldStop = True\<rparr> scenario_req =
     (None, \<lparr>electionC = [scenario_req], shouldStop = True\<rparr>)"
  by (simp add: addElectionReq_def electionC_cap_def)

theorem addElectionReq_outcomes_witness:
  "\<not> shouldStop \<lparr>electionC = replicate 1000 scenario_req, shouldStop = False\<rparr> \<and>
   electionC_cap \<le> length (electionC \<lparr>electionC = replicate 1000 scenario_req, shouldStop = False\<rparr>) \<and>
   addElectionReq True \<lparr>electionC = replicate 1000 scenario_req, shouldStop = False\<rparr> scenario_req =
     (Some ErrChannelElectionCIsFull, \<lparr>electionC = replicate 1000 scenario_req, shouldStop = False\<rparr>)"
proof -
  have h: "\<not> shouldStop \<lparr>electionC = replicate 1000 scenario_req, shouldStop = False\<rparr> \<and>
    electionC_cap \<le> length (electionC \<lparr>electionC = replicate 1000 scenario_req, shouldStop = False\<rparr>)"
    by (simp add: electionC_cap_def)
  with addElectionReq_outcomes
    [of "\<lparr>electionC = replicate 1000 scenario_req, shouldStop = False\<rparr>" True scenario_req]
  show ?thesis by blast
qed

section \<open>The message log store (package wkdb)\<close>

subsection \<open>Outcomes and byte encodings\<close>

text \<open>
  A call returns a value, returns an error, or panics (an index or a slice bound out of
  range, an integer division by zero).
\<close>

type_synonym bytes = "uint8 list"

datatype panic = IndexOutOfRange | DivideByZero

datatype 'a result = Ok 'a | Err error | Panic panic

text \<open>
  Modelled from the spec: \<^verbatim>\<open>wk.endian\<close> is declared outside the source file; the
  specification fixes big-endian for every multi-byte value. \<^verbatim>\<open>Uint64\<close> and
  \<^verbatim>\<open>Uint32\<close> panic on a slice that is too short.
\<close>

definition PutUint64 :: "uint64 \<Rightarrow> bytes" where
  "PutUint64 v =
     [ucast (drop_bit 56 v), ucast (drop_bit 48 v), ucast (drop_bit 40 v), ucast (drop_bit 32 v),
      ucast (drop_bit 24 v), ucast (drop_bit 16 v), ucast (drop_bit 8 v), ucast v]"

fun Uint64 :: "bytes \<Rightarrow> uint64 result" where
  "Uint64 (b0 # b1 # b2 # b3 # b4 # b5 # b6 # b7 # _) =
     Ok (push_bit 56 (ucast b0) OR push_bit 48 (ucast b1) OR push_bit 40 (ucast b2) OR
         push_bit 32 (ucast b3) OR push_bit 24 (ucast b4) OR push_bit 16 (ucast b5) OR
         push_bit 8 (ucast b6) OR ucast b7)"
| "Uint64 _ = Panic IndexOutOfRange"

definition PutUint32 :: "uint32 \<Rightarrow> bytes" where
  "PutUint32 v = [ucast (drop_bit 24 v), ucast (drop_bit 16 v), ucast (drop_bit 8 v), ucast v]"

fun Uint32 :: "bytes \<Rightarrow> uint32 result" where
  "Uint32 (b0 # b1 # b2 # b3 # _) =
     Ok (push_bit 24 (ucast b0) OR push_bit 16 (ucast b1) OR push_bit 8 (ucast b2) OR ucast b3)"
| "Uint32 _ = Panic IndexOutOfRange"

lemma byte_bit64:
  "bit (push_bit k (ucast (ucast (drop_bit k v) :: uint8)) :: uint64) n \<longleftrightarrow>
     (k \<le> n \<and> n < k + 8 \<and> bit (v :: uint64) n)"
  by (auto simp: bit_simps dest: bit_imp_le_length)

lemma byte_bit64_0:
  "bit (ucast (ucast v :: uint8) :: uint64) n \<longleftrightarrow> (n < 8 \<and> bit (v :: uint64) n)"
  by (auto simp: bit_simps)

lemma byte_bit32:
  "bit (push_bit k (ucast (ucast (drop_bit k v) :: uint8)) :: uint32) n \<longleftrightarrow>
     (k \<le> n \<and> n < k + 8 \<and> bit (v :: uint32) n)"
  by (auto simp: bit_simps dest: bit_imp_le_length)

lemma byte_bit32_0:
  "bit (ucast (ucast v :: uint8) :: uint32) n \<longleftrightarrow> (n < 8 \<and> bit (v :: uint32) n)"
  by (auto simp: bit_simps)

lemma be64_join:
  "push_bit 56 (ucast (ucast (drop_bit 56 v) :: uint8)) OR
   push_bit 48 (ucast (ucast (drop_bit 48 v) :: uint8)) OR
   push_bit 40 (ucast (ucast (drop_bit 40 v) :: uint8)) OR
   push_bit 32 (ucast (ucast (drop_bit 32 v) :: uint8)) OR
   push_bit 24 (ucast (ucast (drop_bit 24 v) :: uint8)) OR
   push_bit 16 (ucast (ucast (drop_bit 16 v) :: uint8)) OR
   push_bit 8 (ucast (ucast (drop_bit 8 v) :: uint8)) OR ucast (ucast v :: uint8) = (v :: uint64)"
  apply (rule bit_word_eqI)
  apply (simp only: bit_or_iff byte_bit64 byte_bit64_0)
  apply (case_tac "bit v n")
   apply simp_all
  apply arith
  done

lemma be32_join:
  "push_bit 24 (ucast (ucast (drop_bit 24 v) :: uint8)) OR
   push_bit 16 (ucast (ucast (drop_bit 16 v) :: uint8)) OR
   push_bit 8 (ucast (ucast (drop_bit 8 v) :: uint8)) OR ucast (ucast v :: uint8) = (v :: uint32)"
  apply (rule bit_word_eqI)
  apply (simp only: bit_or_iff byte_bit32 byte_bit32_0)
  apply (case_tac "bit v n")
   apply simp_all
  apply arith
  done

lemma Uint64_PutUint64: "Uint64 (PutUint64 v @ rest) = Ok v"
  by (simp add: PutUint64_def be64_join)

lemma Uint32_PutUint32: "Uint32 (PutUint32 v @ rest) = Ok v"
  by (simp add: PutUint32_def be32_join)

subsection \<open>Messages\<close>

text \<open>
  \<^verbatim>\<open>Message\<close> (a \<^verbatim>\<open>wkproto.RecvPacket\<close> with a \<^verbatim>\<open>Term\<close>) is declared outside
  the source file. The record has the fields \<^verbatim>\<open>writeMessage\<close> stores and the
  iterators restore, with the widths of their encodings; \<^verbatim>\<open>Framer\<close> is kept as its
  fixed-header byte (the source converts with \<^verbatim>\<open>ToFixHeaderUint8\<close> and
  \<^verbatim>\<open>FramerFromUint8\<close>), signed fields as the words of the same width. The fields
  \<^verbatim>\<open>ChannelType\<close> and \<^verbatim>\<open>Term\<close> are prefixed with \<open>msg\<close>.
\<close>

record Message =
  Framer :: uint8
  Setting :: uint8
  Expire :: uint32
  MessageID :: uint64
  MessageSeq :: uint32
  ClientMsgNo :: string
  Timestamp :: uint32
  ChannelID :: string
  msgChannelType :: uint8
  Topic :: string
  FromUID :: string
  Payload :: bytes
  msgTerm :: uint64

definition EmptyMessage :: Message where
  "EmptyMessage =
     \<lparr>Framer = 0, Setting = 0, Expire = 0, MessageID = 0, MessageSeq = 0, ClientMsgNo = [],
      Timestamp = 0, ChannelID = [], msgChannelType = 0, Topic = [], FromUID = [], Payload = [],
      msgTerm = 0\<rparr>"

definition stringBytes :: "string \<Rightarrow> bytes" where
  "stringBytes s = map (\<lambda>c. of_nat (of_char c)) s"

definition bytesString :: "bytes \<Rightarrow> string" where
  "bytesString bs = map (\<lambda>b. char_of (unat b)) bs"

subsection \<open>Keys\<close>

text \<open>
  Modelled from the spec: package \<^verbatim>\<open>key\<close> is not among the source files. A key is
  the table it belongs to and the fields its layout lists: the primary message row key
  \<open>prefix | channelNum | messageSeq | columnTag\<close>, the channel-last-seq key
  \<open>prefix | channelNum\<close>, the \<open>messageId\<close> index \<open>prefix | messageId\<close>, and the
  \<open>fromUid\<close>, \<open>clientMsgNo\<close> and \<open>timestamp\<close> indices, which end in the 16-byte
  primary handle \<open>channelNum | messageSeq\<close>.
\<close>

datatype column =
  Column_Header | Column_Setting | Column_Expire | Column_MessageId | Column_MessageSeq
  | Column_ClientMsgNo | Column_Timestamp | Column_ChannelId | Column_ChannelType | Column_Topic
  | Column_FromUid | Column_Payload | Column_Term

datatype dbkey =
  MessageColumnKey uint64 uint64 column
  | ChannelLastMessageSeqKey uint64
  | MessageIndexMessageIdKey uint64
  | MessageSecondIndexFromUidKey string uint64 uint64
  | MessageSecondIndexClientMsgNoKey string uint64 uint64
  | MessageIndexTimestampKey uint64 uint64 uint64

text \<open>
  What the source takes from declarations outside the source file and the specification
  leaves open: the hash \<^verbatim>\<open>key.ChannelIdToNum\<close>, the tag of each column
  (\<^verbatim>\<open>key.TableMessage.Column\<close>), the tags \<^verbatim>\<open>key.MinColumnKey\<close> and
  \<^verbatim>\<open>key.MaxColumnKey\<close>, and \<^verbatim>\<open>IsEmptyMessage\<close>. They are parameters of the
  model.
\<close>

record externals =
  ChannelIdToNum :: "string \<Rightarrow> uint8 \<Rightarrow> uint64"
  columnTag :: "column \<Rightarrow> nat"
  MinColumnKey :: nat
  MaxColumnKey :: nat
  IsEmptyMessage :: "Message \<Rightarrow> bool"

text \<open>
  Modelled from the spec: keys are big-endian, so the byte order of the message rows is
  the lexicographic order of \<open>(channelNum, messageSeq, columnTag)\<close>. A position is
  such a triple; its last component is \<open>0\<close> for a primary key (a key cut before the
  column tag, which sorts before every column of its row) and the successor of the tag
  for a column key. Keys of the other tables carry another prefix and lie in no range of
  message rows.
\<close>

type_synonym pos = "uint64 \<times> uint64 \<times> nat"

definition NewMessageColumnKey :: "externals \<Rightarrow> string \<Rightarrow> uint8 \<Rightarrow> uint64 \<Rightarrow> column \<Rightarrow> dbkey" where
  "NewMessageColumnKey X chId chType messageSeq col =
     MessageColumnKey (ChannelIdToNum X chId chType) messageSeq col"

definition NewChannelLastMessageSeqKey :: "externals \<Rightarrow> string \<Rightarrow> uint8 \<Rightarrow> dbkey" where
  "NewChannelLastMessageSeqKey X chId chType =
     ChannelLastMessageSeqKey (ChannelIdToNum X chId chType)"

definition NewMessagePrimaryKey :: "externals \<Rightarrow> string \<Rightarrow> uint8 \<Rightarrow> uint64 \<Rightarrow> pos" where
  "NewMessagePrimaryKey X chId chType messageSeq =
     (ChannelIdToNum X chId chType, messageSeq, 0)"

definition NewMessageColumnKeyWithPrimary :: "uint64 \<times> uint64 \<Rightarrow> nat \<Rightarrow> pos" where
  "NewMessageColumnKeyWithPrimary primary tag = (fst primary, snd primary, Suc tag)"

fun keyPos :: "externals \<Rightarrow> dbkey \<Rightarrow> pos" where
  "keyPos X (MessageColumnKey channelNum messageSeq col) = (channelNum, messageSeq, Suc (columnTag X col))"
| "keyPos X _ = (0, 0, 0)"

fun inRange :: "externals \<Rightarrow> pos \<Rightarrow> pos \<Rightarrow> dbkey \<Rightarrow> bool" where
  "inRange X lower upper (MessageColumnKey channelNum messageSeq col) =
     (lower \<le> (channelNum, messageSeq, Suc (columnTag X col)) \<and>
      (channelNum, messageSeq, Suc (columnTag X col)) < upper)"
| "inRange X lower upper _ = False"

subsection \<open>The embedded key-value store\<close>

text \<open>
  A shard is an association list with distinct keys. \<^verbatim>\<open>DeleteRange\<close> removes the
  keys in \<open>[lower, upper)\<close>; a batch is a list of operations that \<^verbatim>\<open>Commit\<close>
  applies in order, all or none; an iterator with bounds yields the entries in
  \<open>[lower, upper)\<close> in key order.
\<close>

type_synonym db = "(dbkey \<times> bytes) list"

datatype batchOp = BatchSet dbkey bytes | BatchDeleteRange pos pos

type_synonym batch = "batchOp list"

definition DeleteRange :: "externals \<Rightarrow> pos \<Rightarrow> pos \<Rightarrow> db \<Rightarrow> db" where
  "DeleteRange X lower upper d = filter (\<lambda>(k, v). \<not> inRange X lower upper k) d"

fun applyOp :: "externals \<Rightarrow> db \<Rightarrow> batchOp \<Rightarrow> db" where
  "applyOp X d (BatchSet k v) = AList.update k v d"
| "applyOp X d (BatchDeleteRange lower upper) = DeleteRange X lower upper d"

definition Commit :: "externals \<Rightarrow> batch \<Rightarrow> db \<Rightarrow> db" where
  "Commit X b d = foldl (applyOp X) d b"

definition NewIter :: "externals \<Rightarrow> db \<Rightarrow> pos \<Rightarrow> pos \<Rightarrow> (dbkey \<times> bytes) list" where
  "NewIter X d lower upper =
     sort_key (\<lambda>(k, v). keyPos X k) (filter (\<lambda>(k, v). inRange X lower upper k) d)"

text \<open>
  What one call meets outside the program: which store operations fail (a \<^verbatim>\<open>Set\<close>
  on a key, the direct \<^verbatim>\<open>DeleteRange\<close>, the batch's \<^verbatim>\<open>DeleteRange\<close>, the
  \<^verbatim>\<open>Commit\<close> on a shard, a \<^verbatim>\<open>Get\<close> other than by a missing key,
  \<^verbatim>\<open>IncMessageCount\<close>), and the clock \<^verbatim>\<open>time.Now().UnixNano()\<close>.
\<close>

record world =
  SetErr :: "dbkey \<Rightarrow> error option"
  DeleteRangeErr :: "error option"
  BatchDeleteRangeErr :: "error option"
  CommitErr :: "nat \<Rightarrow> error option"
  GetErr :: "error option"
  IncMessageCountErr :: "error option"
  now :: uint64

text \<open>
  The store: its shards \<^verbatim>\<open>wk.dbs\<close> and the total message count.
  \<^verbatim>\<open>IncMessageCount\<close> is declared outside the source file; the model takes it to
  keep a counter apart from the message rows, the indices and the last-sequence keys.
  \<^verbatim>\<open>channelDbIndex\<close> divides by the number of shards.
\<close>

record wukongDB =
  dbs :: "db list"
  messageCount :: int

definition channelDbIndex :: "externals \<Rightarrow> wukongDB \<Rightarrow> string \<Rightarrow> uint8 \<Rightarrow> nat result" where
  "channelDbIndex X wk chId chType =
     (if dbs wk = [] then Panic DivideByZero
      else Ok ((unat (ChannelIdToNum X chId chType) mod length (dbs wk)) mod 2 ^ 32))"

definition IncMessageCount :: "world \<Rightarrow> int \<Rightarrow> wukongDB \<Rightarrow> error option \<times> wukongDB" where
  "IncMessageCount W v wk =
     (case IncMessageCountErr W of
        Some err \<Rightarrow> (Some err, wk)
      | None \<Rightarrow> (None, wk\<lparr>messageCount := messageCount wk + v\<rparr>))"

subsection \<open>Writing\<close>

text \<open>
  \<^verbatim>\<open>writeMessage\<close> is a sequence of \<^verbatim>\<open>w.Set\<close> calls, each returning at once on
  an error: \<open>setAll\<close> is that sequence over the list of the keys and values, in the
  order of the source.
\<close>

fun setAll :: "world \<Rightarrow> (dbkey \<times> bytes) list \<Rightarrow> batch \<Rightarrow> error + batch" where
  "setAll W [] b = Inr b"
| "setAll W ((k, v) # kvs) b =
     (case SetErr W k of
        Some err \<Rightarrow> Inl err
      | None \<Rightarrow> setAll W kvs (b @ [BatchSet k v]))"

definition messageWrites :: "externals \<Rightarrow> string \<Rightarrow> uint8 \<Rightarrow> Message \<Rightarrow> (dbkey \<times> bytes) list" where
  "messageWrites X chId chType msg =
     (let seq = ucast (MessageSeq msg) :: uint64;
          primaryValue = (ChannelIdToNum X chId chType, seq)
      in
      [(NewMessageColumnKey X chId chType seq Column_Header, [Framer msg]),
       (NewMessageColumnKey X chId chType seq Column_Setting, [Setting msg]),
       (NewMessageColumnKey X chId chType seq Column_Expire, PutUint32 (Expire msg)),
       (NewMessageColumnKey X chId chType seq Column_MessageId, PutUint64 (MessageID msg)),
       (NewMessageColumnKey X chId chType seq Column_MessageSeq, PutUint64 seq),
       (NewMessageColumnKey X chId chType seq Column_ClientMsgNo, stringBytes (ClientMsgNo msg)),
       (NewMessageColumnKey X chId chType seq Column_Timestamp, PutUint32 (Timestamp msg)),
       (NewMessageColumnKey X chId chType seq Column_ChannelId, stringBytes (ChannelID msg)),
       (NewMessageColumnKey X chId chType seq Column_ChannelType, [msgChannelType msg]),
       (NewMessageColumnKey X chId chType seq Column_Topic, stringBytes (Topic msg)),
       (NewMessageColumnKey X chId chType seq Column_FromUid, stringBytes (FromUID msg)),
       (NewMessageColumnKey X chId chType seq Column_Payload, Payload msg),
       (NewMessageColumnKey X chId chType seq Column_Term, PutUint64 (msgTerm msg)),
       (MessageSecondIndexFromUidKey (FromUID msg) (fst primaryValue) (snd primaryValue), []),
       (MessageIndexMessageIdKey (MessageID msg),
          PutUint64 (fst primaryValue) @ PutUint64 (snd primaryValue)),
       (MessageSecondIndexClientMsgNoKey (ClientMsgNo msg) (fst primaryValue) (snd primaryValue), []),
       (MessageIndexTimestampKey (scast (Timestamp msg)) (fst primaryValue) (snd primaryValue), [])])"

definition writeMessage ::
  "externals \<Rightarrow> world \<Rightarrow> string \<Rightarrow> uint8 \<Rightarrow> Message \<Rightarrow> batch \<Rightarrow> error + batch"
where
  "writeMessage X W chId chType msg b = setAll W (messageWrites X chId chType msg) b"

definition setChannelLastMessageSeq ::
  "externals \<Rightarrow> world \<Rightarrow> string \<Rightarrow> uint8 \<Rightarrow> uint64 \<Rightarrow> batch \<Rightarrow> error + batch"
where
  "setChannelLastMessageSeq X W chId chType seq b =
     setAll W [(NewChannelLastMessageSeqKey X chId chType, PutUint64 seq @ PutUint64 (now W))] b"

fun appendLoop ::
  "externals \<Rightarrow> world \<Rightarrow> string \<Rightarrow> uint8 \<Rightarrow> Message list \<Rightarrow> batch \<Rightarrow> error + batch"
where
  "appendLoop X W chId chType [] b = Inr b"
| "appendLoop X W chId chType (msg # msgs) b =
     (case writeMessage X W chId chType msg b of
        Inl err \<Rightarrow> Inl err
      | Inr b1 \<Rightarrow>
          (case setChannelLastMessageSeq X W chId chType (ucast (MessageSeq msg)) b1 of
             Inl err \<Rightarrow> Inl err
           | Inr b2 \<Rightarrow> appendLoop X W chId chType msgs b2))"

definition AppendMessages ::
  "externals \<Rightarrow> world \<Rightarrow> wukongDB \<Rightarrow> string \<Rightarrow> uint8 \<Rightarrow> Message list \<Rightarrow> unit result \<times> wukongDB"
where
  "AppendMessages X W wk chId chType msgs =
     (case channelDbIndex X wk chId chType of
        Panic p \<Rightarrow> (Panic p, wk)
      | Err err \<Rightarrow> (Err err, wk)
      | Ok i \<Rightarrow>
          (case appendLoop X W chId chType msgs [] of
             Inl err \<Rightarrow> (Err err, wk)
           | Inr b \<Rightarrow>
               (case IncMessageCount W 1 wk of
                  (Some err, wk1) \<Rightarrow> (Err err, wk1)
                | (None, wk1) \<Rightarrow>
                    (case CommitErr W i of
                       Some err \<Rightarrow> (Err err, wk1)
                     | None \<Rightarrow> (Ok (), wk1\<lparr>dbs := (dbs wk1)[i := Commit X b (dbs wk1 ! i)]\<rparr>)))))"

text \<open>
  \<^verbatim>\<open>TruncateLogTo\<close> first calls \<^verbatim>\<open>db.DeleteRange\<close> on the shard itself, then
  builds a batch with the same \<^verbatim>\<open>DeleteRange\<close> and the new last sequence, and
  commits the batch.
\<close>

definition MaxUint64 :: uint64 where
  "MaxUint64 = 18446744073709551615"

definition TruncateLogTo ::
  "externals \<Rightarrow> world \<Rightarrow> wukongDB \<Rightarrow> string \<Rightarrow> uint8 \<Rightarrow> uint64 \<Rightarrow> unit result \<times> wukongDB"
where
  "TruncateLogTo X W wk chId chType messageSeq =
     (if messageSeq = 0 then (Err (ErrorString ''messageSeq must be greater than 0''), wk)
      else
        (case channelDbIndex X wk chId chType of
           Panic p \<Rightarrow> (Panic p, wk)
         | Err err \<Rightarrow> (Err err, wk)
         | Ok i \<Rightarrow>
             (case DeleteRangeErr W of
                Some err \<Rightarrow> (Err err, wk)
              | None \<Rightarrow>
                  (let lower = NewMessagePrimaryKey X chId chType messageSeq;
                       upper = NewMessagePrimaryKey X chId chType MaxUint64;
                       wk1 = wk\<lparr>dbs := (dbs wk)[i := DeleteRange X lower upper (dbs wk ! i)]\<rparr>
                   in
                   (case BatchDeleteRangeErr W of
                      Some err \<Rightarrow> (Err err, wk1)
                    | None \<Rightarrow>
                        (case setChannelLastMessageSeq X W chId chType (messageSeq - 1)
                                [BatchDeleteRange lower upper] of
                           Inl err \<Rightarrow> (Err err, wk1)
                         | Inr b \<Rightarrow>
                             (case CommitErr W i of
                                Some err \<Rightarrow> (Err err, wk1)
                              | None \<Rightarrow>
                                  (Ok (), wk1\<lparr>dbs := (dbs wk1)[i := Commit X b (dbs wk1 ! i)]\<rparr>))))))))"

subsection \<open>Reading\<close>

definition GetChannelLastMessageSeq ::
  "externals \<Rightarrow> world \<Rightarrow> wukongDB \<Rightarrow> string \<Rightarrow> uint8 \<Rightarrow> (uint64 \<times> uint64) result"
where
  "GetChannelLastMessageSeq X W wk chId chType =
     (case channelDbIndex X wk chId chType of
        Panic p \<Rightarrow> Panic p
      | Err err \<Rightarrow> Err err
      | Ok i \<Rightarrow>
          (case GetErr W of
             Some err \<Rightarrow> Err err
           | None \<Rightarrow>
               (case map_of (dbs wk ! i) (NewChannelLastMessageSeqKey X chId chType) of
                  None \<Rightarrow> Ok (0, 0)
                | Some data \<Rightarrow>
                    (case Uint64 data of
                       Panic p \<Rightarrow> Panic p
                     | Err err \<Rightarrow> Err err
                     | Ok seq \<Rightarrow>
                         (case Uint64 (drop 8 data) of
                            Panic p \<Rightarrow> Panic p
                          | Err err \<Rightarrow> Err err
                          | Ok setTime \<Rightarrow> Ok (seq, setTime))))))"

text \<open>
  The \<^verbatim>\<open>switch\<close> of the iterators: the column's value is decoded into its field.
  There is no case for the \<^verbatim>\<open>MessageSeq\<close> column; the sequence is taken from the key.
\<close>

fun firstByte :: "bytes \<Rightarrow> uint8 result" where
  "firstByte [] = Panic IndexOutOfRange"
| "firstByte (b # _) = Ok b"

definition mapResult :: "('a \<Rightarrow> 'b) \<Rightarrow> 'a result \<Rightarrow> 'b result" where
  "mapResult f r = (case r of Ok v \<Rightarrow> Ok (f v) | Err err \<Rightarrow> Err err | Panic p \<Rightarrow> Panic p)"

fun applyColumn :: "column \<Rightarrow> bytes \<Rightarrow> Message \<Rightarrow> Message result" where
  "applyColumn Column_Header v m = mapResult (\<lambda>b. m\<lparr>Framer := b\<rparr>) (firstByte v)"
| "applyColumn Column_Setting v m = mapResult (\<lambda>b. m\<lparr>Setting := b\<rparr>) (firstByte v)"
| "applyColumn Column_Expire v m = mapResult (\<lambda>x. m\<lparr>Expire := x\<rparr>) (Uint32 v)"
| "applyColumn Column_MessageId v m = mapResult (\<lambda>x. m\<lparr>MessageID := x\<rparr>) (Uint64 v)"
| "applyColumn Column_MessageSeq v m = Ok m"
| "applyColumn Column_ClientMsgNo v m = Ok (m\<lparr>ClientMsgNo := bytesString v\<rparr>)"
| "applyColumn Column_Timestamp v m = mapResult (\<lambda>x. m\<lparr>Timestamp := x\<rparr>) (Uint32 v)"
| "applyColumn Column_ChannelId v m = Ok (m\<lparr>ChannelID := bytesString v\<rparr>)"
| "applyColumn Column_ChannelType v m = mapResult (\<lambda>b. m\<lparr>msgChannelType := b\<rparr>) (firstByte v)"
| "applyColumn Column_Topic v m = Ok (m\<lparr>Topic := bytesString v\<rparr>)"
| "applyColumn Column_FromUid v m = Ok (m\<lparr>FromUID := bytesString v\<rparr>)"
| "applyColumn Column_Payload v m = Ok (m\<lparr>Payload := v\<rparr>)"
| "applyColumn Column_Term v m = mapResult (\<lambda>x. m\<lparr>msgTerm := x\<rparr>) (Uint64 v)"

text \<open>
  \<^verbatim>\<open>iteratorChannelMessagesDirection\<close>. The source positions the iterator with
  \<^verbatim>\<open>First()\<close> (\<^verbatim>\<open>Last()\<close> when reversing) and returns if there is no entry. Each
  pass of \<^verbatim>\<open>for iter.Valid()\<close> then begins with \<^verbatim>\<open>iter.Next()\<close>
  (\<^verbatim>\<open>iter.Prev()\<close>), leaving the loop when that fails, and reads
  \<^verbatim>\<open>iter.Key()\<close> only afterwards: the loop body sees every entry but the one the
  iterator was positioned on. \<open>iterLoop\<close> is the loop over the entries after that one;
  the callback \<^verbatim>\<open>iterFnc\<close> works on a state \<open>'s\<close> (the variables it captures) and
  returns whether to go on. After a loop that ran to the end the pending message is
  passed to the callback if any entry was read.
\<close>

fun iterLoop ::
  "int \<Rightarrow> ('s \<Rightarrow> Message \<Rightarrow> 's \<times> bool) \<Rightarrow> (dbkey \<times> bytes) list \<Rightarrow>
   int \<Rightarrow> uint64 \<Rightarrow> Message \<Rightarrow> bool \<Rightarrow> 's \<Rightarrow> 's result"
where
  "iterLoop limit iterFnc [] sizeN preMessageSeq preMessage hasData st =
     (if hasData then Ok (fst (iterFnc st preMessage)) else Ok st)"
| "iterLoop limit iterFnc ((MessageColumnKey channelNum messageSeq coulmnName, v) # rows)
       sizeN preMessageSeq preMessage hasData st =
     (if preMessageSeq \<noteq> messageSeq then
        (if preMessageSeq \<noteq> 0 then
           (case iterFnc st preMessage of
              (st1, False) \<Rightarrow> Ok st1
            | (st1, True) \<Rightarrow>
                if limit \<noteq> 0 \<and> sizeN + 1 \<ge> limit then Ok st1
                else
                  (case applyColumn coulmnName v (EmptyMessage\<lparr>MessageSeq := ucast messageSeq\<rparr>) of
                     Panic p \<Rightarrow> Panic p
                   | Err err \<Rightarrow> Err err
                   | Ok m \<Rightarrow> iterLoop limit iterFnc rows (sizeN + 1) messageSeq m True st1))
         else
           (case applyColumn coulmnName v (EmptyMessage\<lparr>MessageSeq := ucast messageSeq\<rparr>) of
              Panic p \<Rightarrow> Panic p
            | Err err \<Rightarrow> Err err
            | Ok m \<Rightarrow> iterLoop limit iterFnc rows sizeN messageSeq m True st))
      else
        (case applyColumn coulmnName v preMessage of
           Panic p \<Rightarrow> Panic p
         | Err err \<Rightarrow> Err err
         | Ok m \<Rightarrow> iterLoop limit iterFnc rows sizeN preMessageSeq m True st))"
| "iterLoop limit iterFnc ((_, v) # rows) sizeN preMessageSeq preMessage hasData st =
     Err (ErrorString ''invalid message column key'')"

definition iteratorChannelMessagesDirection ::
  "(dbkey \<times> bytes) list \<Rightarrow> int \<Rightarrow> bool \<Rightarrow> ('s \<Rightarrow> Message \<Rightarrow> 's \<times> bool) \<Rightarrow> 's \<Rightarrow> 's result"
where
  "iteratorChannelMessagesDirection iter limit reverse iterFnc st =
     (case (if reverse then rev iter else iter) of
        [] \<Rightarrow> Ok st
      | first # rows \<Rightarrow> iterLoop limit iterFnc rows 0 0 EmptyMessage False st)"

definition iteratorChannelMessages ::
  "(dbkey \<times> bytes) list \<Rightarrow> int \<Rightarrow> ('s \<Rightarrow> Message \<Rightarrow> 's \<times> bool) \<Rightarrow> 's \<Rightarrow> 's result"
where
  "iteratorChannelMessages iter limit iterFnc st =
     iteratorChannelMessagesDirection iter limit False iterFnc st"

definition LoadMsg ::
  "externals \<Rightarrow> wukongDB \<Rightarrow> string \<Rightarrow> uint8 \<Rightarrow> uint64 \<Rightarrow> Message result"
where
  "LoadMsg X wk chId chType seq =
     (case channelDbIndex X wk chId chType of
        Panic p \<Rightarrow> Panic p
      | Err err \<Rightarrow> Err err
      | Ok i \<Rightarrow>
          (case iteratorChannelMessages
                  (NewIter X (dbs wk ! i) (NewMessagePrimaryKey X chId chType seq)
                     (NewMessagePrimaryKey X chId chType (seq + 1)))
                  1 (\<lambda>msg m. (m, False)) EmptyMessage of
             Panic p \<Rightarrow> Panic p
           | Err err \<Rightarrow> Err err
           | Ok msg \<Rightarrow> if IsEmptyMessage X msg then Err ErrNotFound else Ok msg))"

fun getMessageLoop :: "externals \<Rightarrow> world \<Rightarrow> uint64 \<Rightarrow> db list \<Rightarrow> Message result" where
  "getMessageLoop X W messageId [] = Err ErrNotFound"
| "getMessageLoop X W messageId (d # rest) =
     (case GetErr W of
        Some err \<Rightarrow> Err err
      | None \<Rightarrow>
          (case map_of d (MessageIndexMessageIdKey messageId) of
             None \<Rightarrow> getMessageLoop X W messageId rest
           | Some data \<Rightarrow>
               if length data \<noteq> 16 then Err (ErrorString ''invalid message index key'')
               else
                 (case (Uint64 data, Uint64 (drop 8 data)) of
                    (Ok channelNum, Ok messageSeq) \<Rightarrow>
                      (case iteratorChannelMessages
                              (NewIter X d
                                 (NewMessageColumnKeyWithPrimary (channelNum, messageSeq) (MinColumnKey X))
                                 (NewMessageColumnKeyWithPrimary (channelNum, messageSeq) (MaxColumnKey X)))
                              0 (\<lambda>msg m. (m, False)) EmptyMessage of
                         Panic p \<Rightarrow> Panic p
                       | Err err \<Rightarrow> Err err
                       | Ok msg \<Rightarrow> if IsEmptyMessage X msg then Err ErrNotFound else Ok msg)
                  | _ \<Rightarrow> Panic IndexOutOfRange)))"

definition GetMessage :: "externals \<Rightarrow> world \<Rightarrow> wukongDB \<Rightarrow> uint64 \<Rightarrow> Message result" where
  "GetMessage X W wk messageId = getMessageLoop X W messageId (dbs wk)"

subsection \<open>AppendMessagesBatch\<close>

text \<open>
  \<^verbatim>\<open>writeMessagesBatch\<close> reads \<^verbatim>\<open>req.Messages[len(req.Messages)-1]\<close> first in
  every pass of its loop. \<^verbatim>\<open>AppendMessagesBatch\<close> groups the requests by shard;
  one group is written inline, several are written by one goroutine each, all of them
  started, and \<^verbatim>\<open>requestGroup.Wait()\<close> gives the first error: \<open>writeShards\<close> runs
  them in the order of the map. The fields of \<^verbatim>\<open>AppendMessagesReq\<close> are prefixed
  with \<open>app\<close>.
\<close>

record AppendMessagesReq =
  appChannelId :: string
  appChannelType :: uint8
  Messages :: "Message list"

fun writeAll ::
  "externals \<Rightarrow> world \<Rightarrow> string \<Rightarrow> uint8 \<Rightarrow> Message list \<Rightarrow> batch \<Rightarrow> error + batch"
where
  "writeAll X W chId chType [] b = Inr b"
| "writeAll X W chId chType (msg # msgs) b =
     (case writeMessage X W chId chType msg b of
        Inl err \<Rightarrow> Inl err
      | Inr b1 \<Rightarrow> writeAll X W chId chType msgs b1)"

fun batchLoop :: "externals \<Rightarrow> world \<Rightarrow> AppendMessagesReq list \<Rightarrow> batch \<Rightarrow> batch result" where
  "batchLoop X W [] b = Ok b"
| "batchLoop X W (req # reqs) b =
     (if Messages req = [] then Panic IndexOutOfRange
      else
        (let lastMsg = last (Messages req) in
         case writeAll X W (appChannelId req) (appChannelType req) (Messages req) b of
           Inl err \<Rightarrow> Err err
         | Inr b1 \<Rightarrow>
             (case setChannelLastMessageSeq X W (appChannelId req) (appChannelType req)
                     (ucast (MessageSeq lastMsg)) b1 of
                Inl err \<Rightarrow> Err err
              | Inr b2 \<Rightarrow> batchLoop X W reqs b2)))"

definition writeMessagesBatch ::
  "externals \<Rightarrow> world \<Rightarrow> nat \<Rightarrow> db \<Rightarrow> AppendMessagesReq list \<Rightarrow> unit result \<times> db"
where
  "writeMessagesBatch X W shardId d reqs =
     (case batchLoop X W reqs [] of
        Panic p \<Rightarrow> (Panic p, d)
      | Err err \<Rightarrow> (Err err, d)
      | Ok b \<Rightarrow>
          (case CommitErr W shardId of
             Some err \<Rightarrow> (Err err, d)
           | None \<Rightarrow> (Ok (), Commit X b d)))"

fun groupByShard ::
  "externals \<Rightarrow> wukongDB \<Rightarrow> AppendMessagesReq list \<Rightarrow> (nat, AppendMessagesReq) gomap \<Rightarrow>
   (nat, AppendMessagesReq) gomap result"
where
  "groupByShard X wk [] dbMap = Ok dbMap"
| "groupByShard X wk (req # reqs) dbMap =
     (case channelDbIndex X wk (appChannelId req) (appChannelType req) of
        Panic p \<Rightarrow> Panic p
      | Err err \<Rightarrow> Err err
      | Ok shardId \<Rightarrow> groupByShard X wk reqs (mapAppend dbMap shardId req))"

fun writeShards ::
  "externals \<Rightarrow> world \<Rightarrow> (nat, AppendMessagesReq) gomap \<Rightarrow> error option \<Rightarrow> wukongDB \<Rightarrow>
   unit result \<times> wukongDB"
where
  "writeShards X W [] firstErr wk = (case firstErr of None \<Rightarrow> (Ok (), wk) | Some err \<Rightarrow> (Err err, wk))"
| "writeShards X W ((shardId, reqs) # rest) firstErr wk =
     (case writeMessagesBatch X W shardId (dbs wk ! shardId) reqs of
        (Panic p, d) \<Rightarrow> (Panic p, wk)
      | (Err err, d) \<Rightarrow>
          writeShards X W rest (case firstErr of None \<Rightarrow> Some err | Some e \<Rightarrow> Some e) wk
      | (Ok u, d) \<Rightarrow> writeShards X W rest firstErr (wk\<lparr>dbs := (dbs wk)[shardId := d]\<rparr>))"

fun writeInline ::
  "externals \<Rightarrow> world \<Rightarrow> (nat, AppendMessagesReq) gomap \<Rightarrow> wukongDB \<Rightarrow> unit result \<times> wukongDB"
where
  "writeInline X W [] wk = (Ok (), wk)"
| "writeInline X W ((shardId, reqs) # rest) wk =
     (case writeMessagesBatch X W shardId (dbs wk ! shardId) reqs of
        (Panic p, d) \<Rightarrow> (Panic p, wk)
      | (Err err, d) \<Rightarrow> (Err err, wk)
      | (Ok u, d) \<Rightarrow> writeInline X W rest (wk\<lparr>dbs := (dbs wk)[shardId := d]\<rparr>))"

definition msgTotalCount :: "AppendMessagesReq list \<Rightarrow> int" where
  "msgTotalCount reqs = (\<Sum>req \<leftarrow> reqs. int (length (Messages req)))"

definition AppendMessagesBatch ::
  "externals \<Rightarrow> world \<Rightarrow> wukongDB \<Rightarrow> AppendMessagesReq list \<Rightarrow> unit result \<times> wukongDB"
where
  "AppendMessagesBatch X W wk reqs =
     (case groupByShard X wk reqs [] of
        Panic p \<Rightarrow> (Panic p, wk)
      | Err err \<Rightarrow> (Err err, wk)
      | Ok dbMap \<Rightarrow>
          (case (if length dbMap = 1 then writeInline X W dbMap wk
                 else writeShards X W dbMap None wk) of
             (Panic p, wk1) \<Rightarrow> (Panic p, wk1)
           | (Err err, wk1) \<Rightarrow> (Err err, wk1)
           | (Ok u, wk1) \<Rightarrow>
               (case IncMessageCount W (msgTotalCount reqs) wk1 of
                  (Some err, wk2) \<Rightarrow> (Err err, wk2)
                | (None, wk2) \<Rightarrow> (Ok (), wk2))))"

subsection \<open>A concrete store\<close>

text \<open>
  For evaluation: one shard, column tags in the order in which the source lists the
  columns, \<^verbatim>\<open>IsEmptyMessage\<close> as "the message id is zero", and a world in which no
  operation fails.
\<close>

fun sourceOrderTag :: "column \<Rightarrow> nat" where
  "sourceOrderTag Column_Header = 1"
| "sourceOrderTag Column_Setting = 2"
| "sourceOrderTag Column_Expire = 3"
| "sourceOrderTag Column_MessageId = 4"
| "sourceOrderTag Column_MessageSeq = 5"
| "sourceOrderTag Column_ClientMsgNo = 6"
| "sourceOrderTag Column_Timestamp = 7"
| "sourceOrderTag Column_ChannelId = 8"
| "sourceOrderTag Column_ChannelType = 9"
| "sourceOrderTag Column_Topic = 10"
| "sourceOrderTag Column_FromUid = 11"
| "sourceOrderTag Column_Payload = 12"
| "sourceOrderTag Column_Term = 13"

definition exampleExternals :: externals where
  "exampleExternals =
     \<lparr>ChannelIdToNum = (\<lambda>chId chType. 7), columnTag = sourceOrderTag,
      MinColumnKey = 0, MaxColumnKey = 255, IsEmptyMessage = (\<lambda>m. MessageID m = 0)\<rparr>"

definition quietWorld :: world where
  "quietWorld =
     \<lparr>SetErr = (\<lambda>_. None), DeleteRangeErr = None, BatchDeleteRangeErr = None,
      CommitErr = (\<lambda>_. None), GetErr = None, IncMessageCountErr = None, now = 1000\<rparr>"

definition emptyStore :: wukongDB where
  "emptyStore = \<lparr>dbs = [[]], messageCount = 0\<rparr>"

definition exampleMessage :: "uint32 \<Rightarrow> Message" where
  "exampleMessage seq =
     \<lparr>Framer = 49, Setting = 1, Expire = 60, MessageID = 1000 + ucast seq, MessageSeq = seq,
      ClientMsgNo = ''no'', Timestamp = 1700000000, ChannelID = ''c'', msgChannelType = 1,
      Topic = ''t'', FromUID = ''u1'', Payload = [104, 105], msgTerm = 3\<rparr>"

lemma setAll_no_faults: "\<forall>k. SetErr W k = None \<Longrightarrow> \<exists>b'. setAll W kvs b = Inr b'"
  by (induction kvs arbitrary: b) auto

lemma writeAll_no_faults:
  "\<forall>k. SetErr W k = None \<Longrightarrow> \<exists>b'. writeAll X W chId chType msgs b = Inr b'"
proof (induction msgs arbitrary: b)
  case Nil
  show ?case by simp
next
  case (Cons msg msgs)
  from setAll_no_faults [OF Cons.prems] obtain b1 where
    "writeMessage X W chId chType msg b = Inr b1"
    unfolding writeMessage_def by blast
  with Cons.IH [OF Cons.prems, of b1] show ?case by simp
qed

lemma batchLoop_in_bounds:
  "\<forall>req \<in> set reqs. Messages req \<noteq> [] \<Longrightarrow> batchLoop X W reqs b \<noteq> Panic p"
proof (induction reqs arbitrary: b)
  case Nil
  show ?case by simp
next
  case (Cons req reqs)
  then have ne: "Messages req \<noteq> []" and rest: "\<forall>req \<in> set reqs. Messages req \<noteq> []"
    by simp_all
  show ?case
  proof (cases "writeAll X W (appChannelId req) (appChannelType req) (Messages req) b")
    case (Inl err)
    with ne show ?thesis by simp
  next
    case (Inr b1)
    show ?thesis
    proof (cases "setChannelLastMessageSeq X W (appChannelId req) (appChannelType req)
        (ucast (MessageSeq (last (Messages req)))) b1")
      case (Inl err)
      with ne Inr show ?thesis by simp
    next
      case b2: (Inr b2)
      from Cons.IH [OF rest, of b2] ne Inr b2 show ?thesis by simp
    qed
  qed
qed

lemma batchLoop_empty_panics:
  assumes "\<exists>req \<in> set reqs. Messages req = []" and nf: "\<forall>k. SetErr W k = None"
  shows "batchLoop X W reqs b = Panic IndexOutOfRange"
  using assms(1)
proof (induction reqs arbitrary: b)
  case Nil
  then show ?case by simp
next
  case (Cons req reqs)
  show ?case
  proof (cases "Messages req = []")
    case True
    then show ?thesis by simp
  next
    case False
    with Cons.prems have rest: "\<exists>req \<in> set reqs. Messages req = []" by auto
    from writeAll_no_faults [OF nf] obtain b1 where
      w: "writeAll X W (appChannelId req) (appChannelType req) (Messages req) b = Inr b1"
      by blast
    from setAll_no_faults [OF nf] obtain b2 where
      s: "setChannelLastMessageSeq X W (appChannelId req) (appChannelType req)
            (ucast (MessageSeq (last (Messages req)))) b1 = Inr b2"
      unfolding setChannelLastMessageSeq_def by blast
    from Cons.IH [OF rest, of b2] False w s show ?thesis by simp
  qed
qed

lemma writeMessagesBatch_in_bounds:
  "\<forall>req \<in> set reqs. Messages req \<noteq> [] \<Longrightarrow> fst (writeMessagesBatch X W shardId d reqs) \<noteq> Panic p"
  using batchLoop_in_bounds [of reqs X W "[]"]
  by (cases "batchLoop X W reqs []") (auto simp: writeMessagesBatch_def split: option.splits)

lemma writeMessagesBatch_empty_panics:
  "\<exists>req \<in> set reqs. Messages req = [] \<Longrightarrow> \<forall>k. SetErr W k = None \<Longrightarrow>
   writeMessagesBatch X W shardId d reqs = (Panic IndexOutOfRange, d)"
  by (simp add: writeMessagesBatch_def batchLoop_empty_panics)

lemma set_update_cases:
  "(k', v') \<in> set (AList.update k v al) \<Longrightarrow> (k', v') \<in> set al \<or> (k' = k \<and> v' = v)"
  by (induction al) (auto split: if_splits)

definition groupsNonEmpty :: "(nat, AppendMessagesReq) gomap \<Rightarrow> bool" where
  "groupsNonEmpty dbMap = (\<forall>(shardId, reqs) \<in> set dbMap. \<forall>req \<in> set reqs. Messages req \<noteq> [])"

lemma groupsNonEmpty_mapAppend:
  assumes "groupsNonEmpty dbMap" and "Messages req \<noteq> []"
  shows "groupsNonEmpty (mapAppend dbMap shardId req)"
proof -
  have "\<forall>r \<in> set reqs. Messages r \<noteq> []" if "(sid, reqs) \<in> set (mapAppend dbMap shardId req)" for sid reqs
  proof -
    from that have "(sid, reqs) \<in> set dbMap \<or>
        reqs = (case map_of dbMap shardId of None \<Rightarrow> [] | Some vs \<Rightarrow> vs) @ [req]"
      unfolding mapAppend_def by (auto dest: set_update_cases)
    then show ?thesis
    proof
      assume "(sid, reqs) \<in> set dbMap"
      with assms(1) show ?thesis unfolding groupsNonEmpty_def by blast
    next
      assume r: "reqs = (case map_of dbMap shardId of None \<Rightarrow> [] | Some vs \<Rightarrow> vs) @ [req]"
      show ?thesis
      proof (cases "map_of dbMap shardId")
        case None
        with r assms(2) show ?thesis by simp
      next
        case (Some vs)
        then have "(shardId, vs) \<in> set dbMap" by (rule map_of_SomeD)
        with assms(1) have "\<forall>r \<in> set vs. Messages r \<noteq> []" unfolding groupsNonEmpty_def by blast
        with r Some assms(2) show ?thesis by simp
      qed
    qed
  qed
  then show ?thesis unfolding groupsNonEmpty_def by blast
qed

lemma groupByShard_nonEmpty:
  "groupByShard X wk reqs dbMap = Ok dbMap' \<Longrightarrow> groupsNonEmpty dbMap \<Longrightarrow>
   \<forall>req \<in> set reqs. Messages req \<noteq> [] \<Longrightarrow> groupsNonEmpty dbMap'"
proof (induction reqs arbitrary: dbMap)
  case Nil
  then show ?case by simp
next
  case (Cons req reqs)
  from Cons.prems(1) obtain shardId where
    i: "channelDbIndex X wk (appChannelId req) (appChannelType req) = Ok shardId"
    and g: "groupByShard X wk reqs (mapAppend dbMap shardId req) = Ok dbMap'"
    by (auto split: result.splits)
  from Cons.prems(2,3) have "groupsNonEmpty (mapAppend dbMap shardId req)"
    by (simp add: groupsNonEmpty_mapAppend)
  from Cons.IH [OF g this] Cons.prems(3) show ?case by simp
qed

lemma groupByShard_panic:
  "groupByShard X wk reqs dbMap = Panic p \<Longrightarrow> p = DivideByZero"
  by (induction reqs arbitrary: dbMap)
    (auto simp: channelDbIndex_def split: result.splits if_splits)

lemma writeInline_in_bounds:
  "groupsNonEmpty dbMap \<Longrightarrow> fst (writeInline X W dbMap wk) \<noteq> Panic p"
proof (induction dbMap arbitrary: wk)
  case Nil
  show ?case by simp
next
  case (Cons a dbMap)
  obtain shardId reqs where a: "a = (shardId, reqs)" by (cases a)
  from Cons.prems a have ne: "\<forall>req \<in> set reqs. Messages req \<noteq> []" and rest: "groupsNonEmpty dbMap"
    by (auto simp: groupsNonEmpty_def)
  obtain r d where w: "writeMessagesBatch X W shardId (dbs wk ! shardId) reqs = (r, d)"
    by (cases "writeMessagesBatch X W shardId (dbs wk ! shardId) reqs")
  from writeMessagesBatch_in_bounds [OF ne, of X W shardId "dbs wk ! shardId"] w
  have np: "\<And>q. r \<noteq> Panic q" by (cases r) auto
  show ?case
  proof (cases r)
    case (Ok u)
    with w a Cons.IH [OF rest] show ?thesis by simp
  next
    case (Err err)
    with w a show ?thesis by simp
  next
    case (Panic q)
    with np [of q] show ?thesis by simp
  qed
qed

lemma writeShards_in_bounds:
  "groupsNonEmpty dbMap \<Longrightarrow> fst (writeShards X W dbMap firstErr wk) \<noteq> Panic p"
proof (induction dbMap arbitrary: wk firstErr)
  case Nil
  show ?case by (simp split: option.splits)
next
  case (Cons a dbMap)
  obtain shardId reqs where a: "a = (shardId, reqs)" by (cases a)
  from Cons.prems a have ne: "\<forall>req \<in> set reqs. Messages req \<noteq> []" and rest: "groupsNonEmpty dbMap"
    by (auto simp: groupsNonEmpty_def)
  obtain r d where w: "writeMessagesBatch X W shardId (dbs wk ! shardId) reqs = (r, d)"
    by (cases "writeMessagesBatch X W shardId (dbs wk ! shardId) reqs")
  from writeMessagesBatch_in_bounds [OF ne, of X W shardId "dbs wk ! shardId"] w
  have np: "\<And>q. r \<noteq> Panic q" by (cases r) auto
  show ?case
  proof (cases r)
    case (Ok u)
    with w a Cons.IH [OF rest] show ?thesis by simp
  next
    case (Err err)
    with w a Cons.IH [OF rest] show ?thesis by simp
  next
    case (Panic q)
    with np [of q] show ?thesis by simp
  qed
qed

lemma AppendMessagesBatch_in_bounds:
  assumes "\<forall>req \<in> set reqs. Messages req \<noteq> []"
  shows "fst (AppendMessagesBatch X W wk reqs) \<noteq> Panic IndexOutOfRange"
proof (cases "groupByShard X wk reqs []")
  case (Ok dbMap)
  have "groupsNonEmpty []" by (simp add: groupsNonEmpty_def)
  from groupByShard_nonEmpty [OF Ok this assms] have g: "groupsNonEmpty dbMap" .
  obtain r wk1 where w: "(if length dbMap = 1 then writeInline X W dbMap wk
      else writeShards X W dbMap None wk) = (r, wk1)"
    by (cases "if length dbMap = 1 then writeInline X W dbMap wk else writeShards X W dbMap None wk")
  have np: "r \<noteq> Panic q" for q
    using writeInline_in_bounds [OF g, of X W wk q] writeShards_in_bounds [OF g, of X W None wk q] w
    by (auto split: if_splits)
  show ?thesis
  proof (cases r)
    case (Ok u)
    with w \<open>groupByShard X wk reqs [] = Ok dbMap\<close> show ?thesis
      by (simp add: AppendMessagesBatch_def IncMessageCount_def split: option.splits)
  next
    case (Err err)
    with w \<open>groupByShard X wk reqs [] = Ok dbMap\<close> show ?thesis
      by (simp add: AppendMessagesBatch_def)
  next
    case (Panic q)
    with np [of q] show ?thesis by simp
  qed
next
  case (Err err)
  then show ?thesis by (simp add: AppendMessagesBatch_def)
next
  case (Panic p)
  from groupByShard_panic [OF Panic] Panic show ?thesis by (simp add: AppendMessagesBatch_def)
qed

definition emptyBatchReq :: AppendMessagesReq where
  "emptyBatchReq = \<lparr>appChannelId = ''c'', appChannelType = 1, Messages = []\<rparr>"

lemma AppendMessagesBatch_emptyBatchReq:
  "AppendMessagesBatch exampleExternals quietWorld emptyStore [emptyBatchReq] =
     (Panic IndexOutOfRange, emptyStore)"
  by (simp add: AppendMessagesBatch_def channelDbIndex_def emptyStore_def exampleExternals_def
      mapAppend_def writeMessagesBatch_def emptyBatchReq_def)

subsection \<open>The batch of AppendMessages\<close>

text \<open>
  \<open>appendOps\<close> is the batch \<^verbatim>\<open>AppendMessages\<close> builds: for each message its rows
  and index entries, then the channel's last sequence. \<open>appendCalls\<close> runs a sequence
  of calls on one channel and is defined when all of them succeed; \<open>appendedSeqs\<close> are
  the sequence numbers they carry.
\<close>

definition lastSeqWrite :: "externals \<Rightarrow> world \<Rightarrow> string \<Rightarrow> uint8 \<Rightarrow> uint64 \<Rightarrow> batchOp" where
  "lastSeqWrite X W chId chType seq =
     BatchSet (NewChannelLastMessageSeqKey X chId chType) (PutUint64 seq @ PutUint64 (now W))"

definition appendOps :: "externals \<Rightarrow> world \<Rightarrow> string \<Rightarrow> uint8 \<Rightarrow> Message list \<Rightarrow> batch" where
  "appendOps X W chId chType msgs =
     concat (map (\<lambda>msg. map (\<lambda>(k, v). BatchSet k v) (messageWrites X chId chType msg) @
                         [lastSeqWrite X W chId chType (ucast (MessageSeq msg))]) msgs)"

fun appendCalls ::
  "externals \<Rightarrow> wukongDB \<Rightarrow> string \<Rightarrow> uint8 \<Rightarrow> (world \<times> Message list) list \<Rightarrow> wukongDB option"
where
  "appendCalls X wk chId chType [] = Some wk"
| "appendCalls X wk chId chType ((W, msgs) # calls) =
     (case AppendMessages X W wk chId chType msgs of
        (Ok u, wk1) \<Rightarrow> appendCalls X wk1 chId chType calls
      | _ \<Rightarrow> None)"

definition appendedSeqs :: "(world \<times> Message list) list \<Rightarrow> uint32 list" where
  "appendedSeqs calls = concat (map (\<lambda>(W, msgs). map MessageSeq msgs) calls)"

lemma setAll_ok: "setAll W kvs b = Inr b' \<Longrightarrow> b' = b @ map (\<lambda>(k, v). BatchSet k v) kvs"
proof (induction kvs arbitrary: b)
  case Nil
  then show ?case by simp
next
  case (Cons kv kvs)
  obtain k v where kv: "kv = (k, v)" by (cases kv)
  from Cons.prems kv have "setAll W kvs (b @ [BatchSet k v]) = Inr b'"
    by (simp split: option.splits)
  from Cons.IH [OF this] kv show ?case by simp
qed

lemma appendLoop_ok:
  "appendLoop X W chId chType msgs b = Inr b' \<Longrightarrow> b' = b @ appendOps X W chId chType msgs"
proof (induction msgs arbitrary: b)
  case Nil
  then show ?case by (simp add: appendOps_def)
next
  case (Cons msg msgs)
  from Cons.prems obtain b1 b2 where
    w: "writeMessage X W chId chType msg b = Inr b1"
    and s: "setChannelLastMessageSeq X W chId chType (ucast (MessageSeq msg)) b1 = Inr b2"
    and r: "appendLoop X W chId chType msgs b2 = Inr b'"
    by (auto split: sum.splits)
  from setAll_ok [OF w [unfolded writeMessage_def]]
  have b1: "b1 = b @ map (\<lambda>(k, v). BatchSet k v) (messageWrites X chId chType msg)" .
  from setAll_ok [OF s [unfolded setChannelLastMessageSeq_def]]
  have b2: "b2 = b1 @ [lastSeqWrite X W chId chType (ucast (MessageSeq msg))]"
    by (simp add: lastSeqWrite_def)
  from Cons.IH [OF r] b1 b2 show ?case by (simp add: appendOps_def)
qed

lemma channelDbIndex_bound: "channelDbIndex X wk chId chType = Ok i \<Longrightarrow> i < length (dbs wk)"
proof -
  assume a: "channelDbIndex X wk chId chType = Ok i"
  then have ne: "dbs wk \<noteq> []" by (auto simp: channelDbIndex_def split: if_splits)
  from a ne have "i = (unat (ChannelIdToNum X chId chType) mod length (dbs wk)) mod 2 ^ 32"
    by (simp add: channelDbIndex_def)
  moreover have "unat (ChannelIdToNum X chId chType) mod length (dbs wk) < length (dbs wk)"
    using ne by simp
  ultimately show ?thesis
    by (metis le_less_trans mod_less_eq_dividend)
qed

lemma channelDbIndex_length:
  "length (dbs wk') = length (dbs wk) \<Longrightarrow>
   channelDbIndex X wk' chId chType = channelDbIndex X wk chId chType"
  by (auto simp: channelDbIndex_def)

lemma AppendMessages_ok:
  assumes "AppendMessages X W wk chId chType msgs = (Ok u, wk')"
  shows "\<exists>i. channelDbIndex X wk chId chType = Ok i \<and>
           wk' = wk\<lparr>messageCount := messageCount wk + 1,
                    dbs := (dbs wk)[i := Commit X (appendOps X W chId chType msgs) (dbs wk ! i)]\<rparr>"
proof -
  from assms obtain i where i: "channelDbIndex X wk chId chType = Ok i"
    by (auto simp: AppendMessages_def split: result.splits)
  from assms i obtain b where b: "appendLoop X W chId chType msgs [] = Inr b"
    by (auto simp: AppendMessages_def split: sum.splits)
  from appendLoop_ok [OF b] have b': "b = appendOps X W chId chType msgs" by simp
  from assms i b have "IncMessageCountErr W = None" and "CommitErr W i = None"
    by (auto simp: AppendMessages_def IncMessageCount_def split: option.splits)
  with assms i b b' have "wk' = wk\<lparr>messageCount := messageCount wk + 1,
      dbs := (dbs wk)[i := Commit X (appendOps X W chId chType msgs) (dbs wk ! i)]\<rparr>"
    by (simp add: AppendMessages_def IncMessageCount_def)
  with i show ?thesis by blast
qed

lemma AppendMessages_fail:
  assumes "AppendMessages X W wk chId chType msgs = (r, wk')" and "r \<noteq> Ok ()"
  shows "dbs wk' = dbs wk"
  using assms
  by (auto simp: AppendMessages_def IncMessageCount_def
      split: result.splits sum.splits option.splits)

lemma length_PutUint64: "length (PutUint64 v) = 8"
  by (simp add: PutUint64_def)

lemma Uint64_pair:
  "Uint64 (PutUint64 a @ PutUint64 b) = Ok a" "Uint64 (drop 8 (PutUint64 a @ PutUint64 b)) = Ok b"
  using Uint64_PutUint64 [of a "PutUint64 b"] Uint64_PutUint64 [of b "[]"]
  by (simp_all add: length_PutUint64)

lemma Commit_snoc: "Commit X (ops @ [op]) d = applyOp X (Commit X ops d) op"
  by (simp add: Commit_def)

lemma appendOps_last:
  "msgs \<noteq> [] \<Longrightarrow>
   \<exists>ops. appendOps X W chId chType msgs =
     ops @ [lastSeqWrite X W chId chType (ucast (MessageSeq (last msgs)))]"
proof (induction msgs rule: rev_induct)
  case Nil
  then show ?case by simp
next
  case (snoc msg msgs)
  have "appendOps X W chId chType (msgs @ [msg]) =
      (appendOps X W chId chType msgs @ map (\<lambda>(k, v). BatchSet k v) (messageWrites X chId chType msg)) @
      [lastSeqWrite X W chId chType (ucast (MessageSeq msg))]"
    by (simp add: appendOps_def)
  then show ?case by (metis last_snoc)
qed

lemma GetChannelLastMessageSeq_after_append:
  assumes ok: "AppendMessages X W wk chId chType msgs = (Ok u, wk')"
    and ne: "msgs \<noteq> []" and get: "GetErr W' = None"
  shows "GetChannelLastMessageSeq X W' wk' chId chType = Ok (ucast (MessageSeq (last msgs)), now W)"
proof -
  from AppendMessages_ok [OF ok] obtain i where i: "channelDbIndex X wk chId chType = Ok i"
    and wk': "wk' = wk\<lparr>messageCount := messageCount wk + 1,
        dbs := (dbs wk)[i := Commit X (appendOps X W chId chType msgs) (dbs wk ! i)]\<rparr>"
    by blast
  from channelDbIndex_bound [OF i] have bound: "i < length (dbs wk)" .
  have len: "length (dbs wk') = length (dbs wk)" by (simp add: wk')
  from channelDbIndex_length [OF len] i have i': "channelDbIndex X wk' chId chType = Ok i" by simp
  from appendOps_last [OF ne] obtain ops where
    ops: "appendOps X W chId chType msgs =
      ops @ [lastSeqWrite X W chId chType (ucast (MessageSeq (last msgs)))]"
    by blast
  have d: "dbs wk' ! i = Commit X (appendOps X W chId chType msgs) (dbs wk ! i)"
    using bound by (simp add: wk')
  have m: "map_of (dbs wk' ! i) (NewChannelLastMessageSeqKey X chId chType) =
      Some (PutUint64 (ucast (MessageSeq (last msgs))) @ PutUint64 (now W))"
    unfolding d ops Commit_snoc by (simp add: lastSeqWrite_def update_conv')
  show ?thesis
    by (simp add: GetChannelLastMessageSeq_def i' get m Uint64_pair del: drop_append)
qed

lemma appendCalls_last:
  assumes "appendCalls X wk chId chType calls = Some wk'" and "calls \<noteq> []"
    and "\<forall>(W, msgs) \<in> set calls. msgs \<noteq> []" and "GetErr W' = None"
  shows "GetChannelLastMessageSeq X W' wk' chId chType =
           Ok (ucast (MessageSeq (last (snd (last calls)))), now (fst (last calls)))"
  using assms(1,2,3)
proof (induction calls arbitrary: wk)
  case Nil
  then show ?case by simp
next
  case (Cons c calls)
  obtain W msgs where c: "c = (W, msgs)" by (cases c)
  from Cons.prems(1) c obtain u wk1 where
    a: "AppendMessages X W wk chId chType msgs = (Ok u, wk1)"
    and r: "appendCalls X wk1 chId chType calls = Some wk'"
    by (auto split: prod.splits result.splits)
  show ?case
  proof (cases "calls = []")
    case True
    with r have "wk1 = wk'" by simp
    with a have a': "AppendMessages X W wk chId chType msgs = (Ok u, wk')" by simp
    from Cons.prems(3) c have "msgs \<noteq> []" by simp
    from GetChannelLastMessageSeq_after_append [OF a' this assms(4)] True c show ?thesis by simp
  next
    case False
    from Cons.prems(3) have "\<forall>(W, msgs) \<in> set calls. msgs \<noteq> []" by simp
    from Cons.IH [OF r False this] False show ?thesis by simp
  qed
qed

lemma Max_last_consecutive:
  fixes xs :: "uint32 list"
  assumes "xs \<noteq> []" and "map unat xs = [a ..< a + length xs]"
  shows "Max (set xs) = last xs"
proof (rule Max_eqI)
  show "finite (set xs)" by simp
  show "last xs \<in> set xs" using assms(1) by simp
  fix y assume "y \<in> set xs"
  then obtain i where i: "i < length xs" "xs ! i = y" by (auto simp: in_set_conv_nth)
  have nth: "unat (xs ! j) = a + j" if "j < length xs" for j
  proof -
    from that have "unat (xs ! j) = map unat xs ! j" by simp
    also have "\<dots> = a + j" unfolding assms(2) using that by simp
    finally show ?thesis .
  qed
  have "last xs = xs ! (length xs - 1)" using assms(1) by (simp add: last_conv_nth)
  then have "unat (last xs) = a + (length xs - 1)" using nth [of "length xs - 1"] assms(1) by simp
  moreover have "unat y = a + i" using nth [OF i(1)] i(2) by simp
  ultimately have "unat y \<le> unat (last xs)" using i(1) by simp
  then show "y \<le> last xs" by (simp add: word_le_nat_alt)
qed

lemma appendedSeqs_last:
  assumes "calls \<noteq> []" and "\<forall>(W, msgs) \<in> set calls. msgs \<noteq> []"
  shows "appendedSeqs calls \<noteq> [] \<and> last (appendedSeqs calls) = MessageSeq (last (snd (last calls)))"
  using assms
proof (induction calls rule: rev_induct)
  case Nil
  then show ?case by simp
next
  case (snoc c calls)
  obtain W msgs where c: "c = (W, msgs)" by (cases c)
  from snoc.prems(2) c have ne: "msgs \<noteq> []" by simp
  have "appendedSeqs (calls @ [c]) = appendedSeqs calls @ map MessageSeq msgs"
    by (simp add: appendedSeqs_def c)
  with ne c show ?case by (simp add: last_map)
qed

definition storeAfterAppend :: wukongDB where
  "storeAfterAppend =
     \<lparr>dbs =
        [[(MessageColumnKey 7 1 Column_Header, [49]),
          (MessageColumnKey 7 1 Column_Setting, [1]),
          (MessageColumnKey 7 1 Column_Expire, [0, 0, 0, 60]),
          (MessageColumnKey 7 1 Column_MessageId, [0, 0, 0, 0, 0, 0, 3, 233]),
          (MessageColumnKey 7 1 Column_MessageSeq, [0, 0, 0, 0, 0, 0, 0, 1]),
          (MessageColumnKey 7 1 Column_ClientMsgNo, [110, 111]),
          (MessageColumnKey 7 1 Column_Timestamp, [101, 83, 241, 0]),
          (MessageColumnKey 7 1 Column_ChannelId, [99]),
          (MessageColumnKey 7 1 Column_ChannelType, [1]),
          (MessageColumnKey 7 1 Column_Topic, [116]),
          (MessageColumnKey 7 1 Column_FromUid, [117, 49]),
          (MessageColumnKey 7 1 Column_Payload, [104, 105]),
          (MessageColumnKey 7 1 Column_Term, [0, 0, 0, 0, 0, 0, 0, 3]),
          (MessageSecondIndexFromUidKey ''u1'' 7 1, []),
          (MessageIndexMessageIdKey 1001, [0, 0, 0, 0, 0, 0, 0, 7, 0, 0, 0, 0, 0, 0, 0, 1]),
          (MessageSecondIndexClientMsgNoKey ''no'' 7 1, []),
          (MessageIndexTimestampKey 1700000000 7 1, []),
          (ChannelLastMessageSeqKey 7, [0, 0, 0, 0, 0, 0, 0, 1, 0, 0, 0, 0, 0, 0, 3, 232])]],
      messageCount = 1\<rparr>"

lemma exampleWrites:
  "messageWrites exampleExternals ''c'' 1 (exampleMessage 1) =
     [(MessageColumnKey 7 1 Column_Header, [49]),
      (MessageColumnKey 7 1 Column_Setting, [1]),
      (MessageColumnKey 7 1 Column_Expire, [0, 0, 0, 60]),
      (MessageColumnKey 7 1 Column_MessageId, [0, 0, 0, 0, 0, 0, 3, 233]),
      (MessageColumnKey 7 1 Column_MessageSeq, [0, 0, 0, 0, 0, 0, 0, 1]),
      (MessageColumnKey 7 1 Column_ClientMsgNo, [110, 111]),
      (MessageColumnKey 7 1 Column_Timestamp, [101, 83, 241, 0]),
      (MessageColumnKey 7 1 Column_ChannelId, [99]),
      (MessageColumnKey 7 1 Column_ChannelType, [1]),
      (MessageColumnKey 7 1 Column_Topic, [116]),
      (MessageColumnKey 7 1 Column_FromUid, [117, 49]),
      (MessageColumnKey 7 1 Column_Payload, [104, 105]),
      (MessageColumnKey 7 1 Column_Term, [0, 0, 0, 0, 0, 0, 0, 3]),
      (MessageSecondIndexFromUidKey ''u1'' 7 1, []),
      (MessageIndexMessageIdKey 1001, [0, 0, 0, 0, 0, 0, 0, 7, 0, 0, 0, 0, 0, 0, 0, 1]),
      (MessageSecondIndexClientMsgNoKey ''no'' 7 1, []),
      (MessageIndexTimestampKey 1700000000 7 1, [])]"
  by (simp add: messageWrites_def exampleExternals_def exampleMessage_def NewMessageColumnKey_def
      PutUint64_def PutUint32_def stringBytes_def Let_def)

definition quiet :: "world \<Rightarrow> bool" where
  "quiet W = ((\<forall>k. SetErr W k = None) \<and> DeleteRangeErr W = None \<and> BatchDeleteRangeErr W = None \<and>
              (\<forall>i. CommitErr W i = None) \<and> GetErr W = None \<and> IncMessageCountErr W = None)"

lemma quiet_quietWorld: "quiet quietWorld"
  by (simp add: quiet_def quietWorld_def)

lemma setAll_quiet:
  "\<forall>k. SetErr W k = None \<Longrightarrow> setAll W kvs b = Inr (b @ map (\<lambda>(k, v). BatchSet k v) kvs)"
proof (induction kvs arbitrary: b)
  case Nil
  show ?case by simp
next
  case (Cons kv kvs)
  obtain k v where kv: "kv = (k, v)" by (cases kv)
  from Cons.IH [OF Cons.prems, of "b @ [BatchSet k v]"] Cons.prems kv show ?case by simp
qed

lemma appendLoop_quiet:
  assumes "\<forall>k. SetErr W k = None"
  shows "appendLoop X W chId chType msgs b = Inr (b @ appendOps X W chId chType msgs)"
proof (induction msgs arbitrary: b)
  case Nil
  show ?case by (simp add: appendOps_def)
next
  case (Cons msg msgs)
  have w: "writeMessage X W chId chType msg b =
      Inr (b @ map (\<lambda>(k, v). BatchSet k v) (messageWrites X chId chType msg))"
    unfolding writeMessage_def by (rule setAll_quiet [OF assms])
  have s: "setChannelLastMessageSeq X W chId chType (ucast (MessageSeq msg)) b1 =
      Inr (b1 @ [lastSeqWrite X W chId chType (ucast (MessageSeq msg))])" for b1
    unfolding setChannelLastMessageSeq_def setAll_quiet [OF assms] by (simp add: lastSeqWrite_def)
  show ?case
    by (simp add: w s Cons.IH appendOps_def)
qed

lemma AppendMessages_quiet:
  assumes "quiet W" and "channelDbIndex X wk chId chType = Ok i"
  shows "AppendMessages X W wk chId chType msgs =
     (Ok (), wk\<lparr>messageCount := messageCount wk + 1,
                dbs := (dbs wk)[i := Commit X (appendOps X W chId chType msgs) (dbs wk ! i)]\<rparr>)"
proof -
  from assms(1) have s: "\<forall>k. SetErr W k = None" and c: "CommitErr W i = None"
    and n: "IncMessageCountErr W = None"
    by (simp_all add: quiet_def)
  show ?thesis
    unfolding AppendMessages_def assms(2) appendLoop_quiet [OF s]
    by (simp add: IncMessageCount_def n c)
qed

lemma exampleLastSeqWrite:
  "lastSeqWrite exampleExternals quietWorld ''c'' 1 (ucast (MessageSeq (exampleMessage 1))) =
     BatchSet (ChannelLastMessageSeqKey 7) [0, 0, 0, 0, 0, 0, 0, 1, 0, 0, 0, 0, 0, 0, 3, 232]"
  by (simp add: lastSeqWrite_def quietWorld_def NewChannelLastMessageSeqKey_def exampleExternals_def
      exampleMessage_def PutUint64_def)

lemma AppendMessages_example:
  "AppendMessages exampleExternals quietWorld emptyStore ''c'' 1 [exampleMessage 1] =
     (Ok (), storeAfterAppend)"
proof -
  have i: "channelDbIndex exampleExternals emptyStore ''c'' 1 = Ok 0"
    by (simp add: channelDbIndex_def emptyStore_def)
  have c: "Commit exampleExternals (appendOps exampleExternals quietWorld ''c'' 1 [exampleMessage 1])
      (dbs emptyStore ! 0) = dbs storeAfterAppend ! 0"
    unfolding appendOps_def list.map concat.simps exampleWrites exampleLastSeqWrite
    by (simp add: Commit_def emptyStore_def storeAfterAppend_def)
  show ?thesis
    unfolding AppendMessages_quiet [OF quiet_quietWorld i] c
    by (simp add: emptyStore_def storeAfterAppend_def)
qed

definition loadedExample :: Message where
  "loadedExample = (exampleMessage 1)\<lparr>Framer := 0\<rparr>"

lemma example_rows:
  "NewIter exampleExternals (dbs storeAfterAppend ! 0) (7, 1, 0) (7, 2, 0) =
     [(MessageColumnKey 7 1 Column_Header, [49]),
      (MessageColumnKey 7 1 Column_Setting, [1]),
      (MessageColumnKey 7 1 Column_Expire, [0, 0, 0, 60]),
      (MessageColumnKey 7 1 Column_MessageId, [0, 0, 0, 0, 0, 0, 3, 233]),
      (MessageColumnKey 7 1 Column_MessageSeq, [0, 0, 0, 0, 0, 0, 0, 1]),
      (MessageColumnKey 7 1 Column_ClientMsgNo, [110, 111]),
      (MessageColumnKey 7 1 Column_Timestamp, [101, 83, 241, 0]),
      (MessageColumnKey 7 1 Column_ChannelId, [99]),
      (MessageColumnKey 7 1 Column_ChannelType, [1]),
      (MessageColumnKey 7 1 Column_Topic, [116]),
      (MessageColumnKey 7 1 Column_FromUid, [117, 49]),
      (MessageColumnKey 7 1 Column_Payload, [104, 105]),
      (MessageColumnKey 7 1 Column_Term, [0, 0, 0, 0, 0, 0, 0, 3])]"
  by (simp add: NewIter_def storeAfterAppend_def exampleExternals_def)

lemma example_scan:
  "iteratorChannelMessages
     [(MessageColumnKey 7 1 Column_Header, [49]),
      (MessageColumnKey 7 1 Column_Setting, [1]),
      (MessageColumnKey 7 1 Column_Expire, [0, 0, 0, 60]),
      (MessageColumnKey 7 1 Column_MessageId, [0, 0, 0, 0, 0, 0, 3, 233]),
      (MessageColumnKey 7 1 Column_MessageSeq, [0, 0, 0, 0, 0, 0, 0, 1]),
      (MessageColumnKey 7 1 Column_ClientMsgNo, [110, 111]),
      (MessageColumnKey 7 1 Column_Timestamp, [101, 83, 241, 0]),
      (MessageColumnKey 7 1 Column_ChannelId, [99]),
      (MessageColumnKey 7 1 Column_ChannelType, [1]),
      (MessageColumnKey 7 1 Column_Topic, [116]),
      (MessageColumnKey 7 1 Column_FromUid, [117, 49]),
      (MessageColumnKey 7 1 Column_Payload, [104, 105]),
      (MessageColumnKey 7 1 Column_Term, [0, 0, 0, 0, 0, 0, 0, 3])]
     limit (\<lambda>msg m. (m, False)) EmptyMessage = Ok loadedExample"
  by (simp add: iteratorChannelMessages_def iteratorChannelMessagesDirection_def mapResult_def
      EmptyMessage_def bytesString_def loadedExample_def exampleMessage_def char_of_def bit_Suc_0_iff)

lemma LoadMsg_example:
  "LoadMsg exampleExternals storeAfterAppend ''c'' 1 1 = Ok loadedExample"
proof -
  have i: "channelDbIndex exampleExternals storeAfterAppend ''c'' 1 = Ok 0"
    by (simp add: channelDbIndex_def storeAfterAppend_def)
  have lo: "NewMessagePrimaryKey exampleExternals ''c'' 1 1 = (7, 1, 0)"
    and hi: "NewMessagePrimaryKey exampleExternals ''c'' 1 (1 + 1) = (7, 2, 0)"
    by (simp_all add: NewMessagePrimaryKey_def exampleExternals_def)
  have e: "\<not> IsEmptyMessage exampleExternals loadedExample"
    by (simp add: exampleExternals_def loadedExample_def exampleMessage_def)
  show ?thesis
    unfolding LoadMsg_def i lo hi by (simp add: example_rows example_scan e)
qed

lemma GetMessage_example:
  "GetMessage exampleExternals quietWorld storeAfterAppend 1001 = Ok loadedExample"
proof -
  have d: "dbs storeAfterAppend = [dbs storeAfterAppend ! 0]"
    by (simp add: storeAfterAppend_def)
  have g: "map_of (dbs storeAfterAppend ! 0) (MessageIndexMessageIdKey 1001) =
      Some [0, 0, 0, 0, 0, 0, 0, 7, 0, 0, 0, 0, 0, 0, 0, 1]"
    by (simp add: storeAfterAppend_def)
  have r: "NewIter exampleExternals (dbs storeAfterAppend ! 0)
      (NewMessageColumnKeyWithPrimary (7, 1) (MinColumnKey exampleExternals))
      (NewMessageColumnKeyWithPrimary (7, 1) (MaxColumnKey exampleExternals)) =
      NewIter exampleExternals (dbs storeAfterAppend ! 0) (7, 1, 0) (7, 2, 0)"
    by (simp add: NewIter_def storeAfterAppend_def exampleExternals_def
        NewMessageColumnKeyWithPrimary_def)
  have e: "\<not> IsEmptyMessage exampleExternals loadedExample"
    by (simp add: exampleExternals_def loadedExample_def exampleMessage_def)
  have q: "GetErr quietWorld = None" by (simp add: quietWorld_def)
  show ?thesis
    unfolding GetMessage_def
    by (subst d) (simp add: g q r example_rows example_scan e)
qed

text \<open>
  C4 (evaluation at the failing input). One message is appended to the empty store as
  sequence 1 of channel \<open>(c, 1)\<close>. \<^verbatim>\<open>LoadMsg\<close> for that sequence and
  \<^verbatim>\<open>GetMessage\<close> for the message id both return the message with the framer
  cleared: the row with the smallest key of the scan, here the header column, is never
  read.
\<close>

theorem LoadMsg_loses_first_column:
  "AppendMessages exampleExternals quietWorld emptyStore ''c'' 1 [exampleMessage 1] =
     (Ok (), storeAfterAppend) \<and>
   LoadMsg exampleExternals storeAfterAppend ''c'' 1 1 = Ok ((exampleMessage 1)\<lparr>Framer := 0\<rparr>) \<and>
   GetMessage exampleExternals quietWorld storeAfterAppend 1001 =
     Ok ((exampleMessage 1)\<lparr>Framer := 0\<rparr>) \<and>
   MessageID (exampleMessage 1) = 1001 \<and>
   Framer (exampleMessage 1) = 49"
  using AppendMessages_example LoadMsg_example GetMessage_example
  by (simp add: loadedExample_def) (simp add: exampleMessage_def)

definition failingCommit :: world where
  "failingCommit = quietWorld\<lparr>CommitErr := (\<lambda>_. Some (ErrorString ''commit failed''))\<rparr>"

definition storeAfterFailedTruncate :: wukongDB where
  "storeAfterFailedTruncate =
     \<lparr>dbs =
        [[(MessageSecondIndexFromUidKey ''u1'' 7 1, []),
          (MessageIndexMessageIdKey 1001, [0, 0, 0, 0, 0, 0, 0, 7, 0, 0, 0, 0, 0, 0, 0, 1]),
          (MessageSecondIndexClientMsgNoKey ''no'' 7 1, []),
          (MessageIndexTimestampKey 1700000000 7 1, []),
          (ChannelLastMessageSeqKey 7, [0, 0, 0, 0, 0, 0, 0, 1, 0, 0, 0, 0, 0, 0, 3, 232])]],
      messageCount = 1\<rparr>"

lemma TruncateLogTo_example:
  "TruncateLogTo exampleExternals failingCommit storeAfterAppend ''c'' 1 1 =
     (Err (ErrorString ''commit failed''), storeAfterFailedTruncate)"
proof -
  have i: "channelDbIndex exampleExternals storeAfterAppend ''c'' 1 = Ok 0"
    by (simp add: channelDbIndex_def storeAfterAppend_def)
  have lo: "NewMessagePrimaryKey exampleExternals ''c'' 1 1 = (7, 1, 0)"
    and hi: "NewMessagePrimaryKey exampleExternals ''c'' 1 MaxUint64 = (7, 18446744073709551615, 0)"
    by (simp_all add: NewMessagePrimaryKey_def exampleExternals_def MaxUint64_def)
  have d: "DeleteRange exampleExternals (7, 1, 0) (7, 18446744073709551615, 0) (dbs storeAfterAppend ! 0) =
      dbs storeAfterFailedTruncate ! 0"
    by (simp add: DeleteRange_def storeAfterAppend_def storeAfterFailedTruncate_def)
  have w: "DeleteRangeErr failingCommit = None" "BatchDeleteRangeErr failingCommit = None"
    "SetErr failingCommit = (\<lambda>_. None)"
    "CommitErr failingCommit 0 = Some (ErrorString ''commit failed'')"
    by (simp_all add: failingCommit_def quietWorld_def)
  show ?thesis
    unfolding TruncateLogTo_def i lo hi
    by (simp add: w d Let_def setChannelLastMessageSeq_def)
      (simp add: storeAfterAppend_def storeAfterFailedTruncate_def)
qed

lemma LoadMsg_after_failed_truncate:
  "LoadMsg exampleExternals storeAfterFailedTruncate ''c'' 1 1 = Err ErrNotFound"
proof -
  have i: "channelDbIndex exampleExternals storeAfterFailedTruncate ''c'' 1 = Ok 0"
    by (simp add: channelDbIndex_def storeAfterFailedTruncate_def)
  have r: "NewIter exampleExternals (dbs storeAfterFailedTruncate ! 0)
      (NewMessagePrimaryKey exampleExternals ''c'' 1 1)
      (NewMessagePrimaryKey exampleExternals ''c'' 1 2) = []"
    by (simp add: NewIter_def storeAfterFailedTruncate_def)
  have e: "IsEmptyMessage exampleExternals EmptyMessage"
    by (simp add: exampleExternals_def EmptyMessage_def)
  show ?thesis
    by (simp add: LoadMsg_def i r iteratorChannelMessages_def iteratorChannelMessagesDirection_def e)
qed

lemma GetChannelLastMessageSeq_after_failed_truncate:
  "GetChannelLastMessageSeq exampleExternals quietWorld storeAfterFailedTruncate ''c'' 1 = Ok (1, 1000)"
proof -
  have i: "channelDbIndex exampleExternals storeAfterFailedTruncate ''c'' 1 = Ok 0"
    by (simp add: channelDbIndex_def storeAfterFailedTruncate_def)
  show ?thesis
    unfolding GetChannelLastMessageSeq_def i
    by (simp add: quietWorld_def storeAfterFailedTruncate_def NewChannelLastMessageSeqKey_def
        exampleExternals_def)
qed

text \<open>
  C5 (evaluation at the failing input). \<^verbatim>\<open>TruncateLogTo(c, 1, 1)\<close> on the store
  above with a failing commit returns the commit's error, yet the rows of sequence 1
  are gone (\<^verbatim>\<open>LoadMsg\<close> found the message before and reports \<^verbatim>\<open>ErrNotFound\<close>
  after) while the channel's last sequence is still 1.
\<close>

theorem TruncateLogTo_not_atomic:
  "TruncateLogTo exampleExternals failingCommit storeAfterAppend ''c'' 1 1 =
     (Err (ErrorString ''commit failed''), storeAfterFailedTruncate) \<and>
   LoadMsg exampleExternals storeAfterAppend ''c'' 1 1 = Ok ((exampleMessage 1)\<lparr>Framer := 0\<rparr>) \<and>
   LoadMsg exampleExternals storeAfterFailedTruncate ''c'' 1 1 = Err ErrNotFound \<and>
   GetChannelLastMessageSeq exampleExternals quietWorld storeAfterFailedTruncate ''c'' 1 = Ok (1, 1000)"
  using TruncateLogTo_example LoadMsg_example LoadMsg_after_failed_truncate
    GetChannelLastMessageSeq_after_failed_truncate
  by (simp add: loadedExample_def)

text \<open>
  C6. After a non-empty sequence of successful \<^verbatim>\<open>AppendMessages\<close> calls on a
  channel, each with a non-empty list, whose sequence numbers continue the channel's
  previous last sequence by one each, \<^verbatim>\<open>GetChannelLastMessageSeq\<close> returns the
  greatest sequence number appended. And every \<^verbatim>\<open>AppendMessages\<close> call that
  succeeds changes its shard by one commit of the batch \<open>appendOps\<close>, which holds the
  message rows and the last sequence; a call that does not succeed leaves every shard
  as it was.
\<close>

theorem AppendMessages_last_seq_is_max:
  assumes "appendCalls X wk chId chType calls = Some wk'"
    and "calls \<noteq> []"
    and "\<forall>(W, msgs) \<in> set calls. msgs \<noteq> []"
    and "GetChannelLastMessageSeq X W0 wk chId chType = Ok (prevLastSeq, t0)"
    and "map unat (appendedSeqs calls) =
           [unat prevLastSeq + 1 ..< unat prevLastSeq + 1 + length (appendedSeqs calls)]"
    and "GetErr W' = None"
  shows "GetChannelLastMessageSeq X W' wk' chId chType =
           Ok (ucast (Max (set (appendedSeqs calls))), now (fst (last calls))) \<and>
         (\<forall>W1 wk1 msgs r wk2. AppendMessages X W1 wk1 chId chType msgs = (r, wk2) \<longrightarrow>
            (if r = Ok () then
               (\<exists>i. channelDbIndex X wk1 chId chType = Ok i \<and>
                  dbs wk2 = (dbs wk1)[i := Commit X (appendOps X W1 chId chType msgs) (dbs wk1 ! i)])
             else dbs wk2 = dbs wk1))"
proof (intro conjI allI impI)
  from appendedSeqs_last [OF assms(2,3)] have ne: "appendedSeqs calls \<noteq> []"
    and l: "last (appendedSeqs calls) = MessageSeq (last (snd (last calls)))"
    by simp_all
  from Max_last_consecutive [OF ne assms(5)] l
  have "Max (set (appendedSeqs calls)) = MessageSeq (last (snd (last calls)))" by simp
  with appendCalls_last [OF assms(1,2,3,6)]
  show "GetChannelLastMessageSeq X W' wk' chId chType =
      Ok (ucast (Max (set (appendedSeqs calls))), now (fst (last calls)))"
    by simp
next
  fix W1 wk1 msgs r wk2
  assume a: "AppendMessages X W1 wk1 chId chType msgs = (r, wk2)"
  show "if r = Ok () then
      (\<exists>i. channelDbIndex X wk1 chId chType = Ok i \<and>
         dbs wk2 = (dbs wk1)[i := Commit X (appendOps X W1 chId chType msgs) (dbs wk1 ! i)])
    else dbs wk2 = dbs wk1"
  proof (cases "r = Ok ()")
    case True
    with a have "AppendMessages X W1 wk1 chId chType msgs = (Ok (), wk2)" by simp
    from AppendMessages_ok [OF this] True show ?thesis by auto
  next
    case False
    from AppendMessages_fail [OF a False] False show ?thesis by simp
  qed
qed

definition exampleCalls :: "(world \<times> Message list) list" where
  "exampleCalls =
     [(quietWorld, [exampleMessage 1]), (quietWorld, [exampleMessage 2, exampleMessage 3])]"

lemma channelDbIndex_one_shard:
  "length (dbs wk) = 1 \<Longrightarrow> channelDbIndex X wk chId chType = Ok 0"
  by (cases "dbs wk") (simp_all add: channelDbIndex_def)

theorem AppendMessages_last_seq_is_max_witness:
  "\<exists>wk'. appendCalls exampleExternals emptyStore ''c'' 1 exampleCalls = Some wk' \<and>
      GetChannelLastMessageSeq exampleExternals quietWorld emptyStore ''c'' 1 = Ok (0, 0) \<and>
      map unat (appendedSeqs exampleCalls) = [1, 2, 3] \<and>
      GetChannelLastMessageSeq exampleExternals quietWorld wk' ''c'' 1 = Ok (3, 1000)"
proof -
  have i0: "channelDbIndex exampleExternals emptyStore ''c'' 1 = Ok 0"
    by (simp add: channelDbIndex_def emptyStore_def)
  define wk1 where "wk1 = emptyStore\<lparr>messageCount := messageCount emptyStore + 1,
      dbs := (dbs emptyStore)[0 := Commit exampleExternals
        (appendOps exampleExternals quietWorld ''c'' 1 [exampleMessage 1]) (dbs emptyStore ! 0)]\<rparr>"
  have a1: "AppendMessages exampleExternals quietWorld emptyStore ''c'' 1 [exampleMessage 1] = (Ok (), wk1)"
    unfolding wk1_def by (rule AppendMessages_quiet [OF quiet_quietWorld i0])
  have "length (dbs wk1) = 1" by (simp add: wk1_def emptyStore_def)
  then have i1: "channelDbIndex exampleExternals wk1 ''c'' 1 = Ok 0"
    by (rule channelDbIndex_one_shard)
  define wk2 where "wk2 = wk1\<lparr>messageCount := messageCount wk1 + 1,
      dbs := (dbs wk1)[0 := Commit exampleExternals
        (appendOps exampleExternals quietWorld ''c'' 1 [exampleMessage 2, exampleMessage 3])
        (dbs wk1 ! 0)]\<rparr>"
  have a2: "AppendMessages exampleExternals quietWorld wk1 ''c'' 1
      [exampleMessage 2, exampleMessage 3] = (Ok (), wk2)"
    unfolding wk2_def by (rule AppendMessages_quiet [OF quiet_quietWorld i1])
  have h1: "appendCalls exampleExternals emptyStore ''c'' 1 exampleCalls = Some wk2"
    by (simp add: exampleCalls_def a1 a2)
  have h2: "exampleCalls \<noteq> []" by (simp add: exampleCalls_def)
  have h3: "\<forall>(W, msgs) \<in> set exampleCalls. msgs \<noteq> []" by (simp add: exampleCalls_def)
  have h4: "GetChannelLastMessageSeq exampleExternals quietWorld emptyStore ''c'' 1 = Ok (0, 0)"
    unfolding GetChannelLastMessageSeq_def i0 by (simp add: quietWorld_def emptyStore_def)
  have seqs: "appendedSeqs exampleCalls = [1, 2, 3]"
    by (simp add: appendedSeqs_def exampleCalls_def exampleMessage_def)
  have h5: "map unat (appendedSeqs exampleCalls) =
      [unat (0 :: uint64) + 1 ..< unat (0 :: uint64) + 1 + length (appendedSeqs exampleCalls)]"
    unfolding seqs by (simp add: upt_rec)
  have h6: "GetErr quietWorld = None" by (simp add: quietWorld_def)
  have m: "Max (set (appendedSeqs exampleCalls)) = 3" unfolding seqs by simp
  have n: "now (fst (last exampleCalls)) = 1000" by (simp add: exampleCalls_def quietWorld_def)
  from AppendMessages_last_seq_is_max [OF h1 h2 h3 h4 h5 h6]
  have "GetChannelLastMessageSeq exampleExternals quietWorld wk2 ''c'' 1 = Ok (3, 1000)"
    unfolding m n by simp
  with h1 h4 seqs show ?thesis by (intro exI [of _ wk2]) simp
qed

text \<open>
  C10. When every request has at least one message, \<^verbatim>\<open>AppendMessagesBatch\<close> and
  \<^verbatim>\<open>writeMessagesBatch\<close> do not panic on an index. When some request has no
  message and no \<^verbatim>\<open>Set\<close> fails, \<^verbatim>\<open>writeMessagesBatch\<close> panics with an index
  out of range and returns no error; so does \<^verbatim>\<open>AppendMessagesBatch\<close> on the empty
  store for a single request without messages.
\<close>

theorem writeMessagesBatch_empty_messages:
  "((\<forall>req \<in> set reqs. Messages req \<noteq> []) \<longrightarrow>
      fst (AppendMessagesBatch X W wk reqs) \<noteq> Panic IndexOutOfRange \<and>
      (\<forall>shardId d p. fst (writeMessagesBatch X W shardId d reqs) \<noteq> Panic p)) \<and>
   ((\<exists>req \<in> set reqs. Messages req = []) \<and> (\<forall>k. SetErr W k = None) \<longrightarrow>
      (\<forall>shardId d. writeMessagesBatch X W shardId d reqs = (Panic IndexOutOfRange, d))) \<and>
   AppendMessagesBatch exampleExternals quietWorld emptyStore [emptyBatchReq] =
     (Panic IndexOutOfRange, emptyStore)"
  using AppendMessagesBatch_in_bounds [of reqs X W wk] writeMessagesBatch_in_bounds [of reqs X W]
    writeMessagesBatch_empty_panics [of reqs W X] AppendMessagesBatch_emptyBatchReq
  by blast

definition oneMessageReq :: AppendMessagesReq where
  "oneMessageReq = \<lparr>appChannelId = ''c'', appChannelType = 1, Messages = [exampleMessage 1]\<rparr>"

theorem writeMessagesBatch_empty_messages_witness:
  "Messages oneMessageReq \<noteq> [] \<and>
   fst (AppendMessagesBatch exampleExternals quietWorld emptyStore [oneMessageReq]) \<noteq> Panic IndexOutOfRange \<and>
   Messages emptyBatchReq = [] \<and>
   writeMessagesBatch exampleExternals quietWorld 0 [] [oneMessageReq, emptyBatchReq] =
     (Panic IndexOutOfRange, [])"
proof -
  have h1: "\<forall>req \<in> set [oneMessageReq]. Messages req \<noteq> []"
    by (simp add: oneMessageReq_def)
  have h2: "(\<exists>req \<in> set [oneMessageReq, emptyBatchReq]. Messages req = []) \<and>
      (\<forall>k. SetErr quietWorld k = None)"
    by (simp add: emptyBatchReq_def quietWorld_def)
  from writeMessagesBatch_empty_messages [of "[oneMessageReq]" exampleExternals quietWorld emptyStore] h1
  have a: "fst (AppendMessagesBatch exampleExternals quietWorld emptyStore [oneMessageReq]) \<noteq>
      Panic IndexOutOfRange"
    by blast
  from writeMessagesBatch_empty_messages
    [of "[oneMessageReq, emptyBatchReq]" exampleExternals quietWorld emptyStore] h2
  have b: "writeMessagesBatch exampleExternals quietWorld 0 [] [oneMessageReq, emptyBatchReq] =
      (Panic IndexOutOfRange, [])"
    by blast
  from a b show ?thesis by (simp add: oneMessageReq_def emptyBatchReq_def)
qed

end
